theory Spec2Isabelle
  imports
    Main
    "HOL-Library.Multiset"
    "HOL-Library.Finite_Map"
    "HOL-Library.Char_ord"
    "HOL-Library.List_Lexorder"
begin

section \<open>Data model\<close>

text \<open>
  The AWS SDK types the detector reads (\<^verbatim>\<open>types.StackResource\<close>, \<^verbatim>\<open>types.Tag\<close>,
  \<^verbatim>\<open>types.Stack\<close>, \<^verbatim>\<open>types.StackSummary\<close>) with the fields this repository uses.
  A Go pointer field (\<^verbatim>\<open>*string\<close>, \<^verbatim>\<open>*time.Time\<close>) is an \<open>option\<close>: \<open>None\<close> is
  \<^verbatim>\<open>nil\<close>. Field names carry the type as a prefix where two SDK types share a name.
\<close>

text \<open>
  \<^verbatim>\<open>time.Time\<close>: the instant as nanoseconds since January 1, year 1, 00:00:00 UTC,
  which is the instant \<^verbatim>\<open>IsZero\<close> tests for. The location is not modelled
  (\<^verbatim>\<open>UTC()\<close> changes only the location).
\<close>

type_synonym Time = int

definition IsZero :: "Time \<Rightarrow> bool" where
  "IsZero t = (t = 0)"

record StackResource =
  LogicalResourceId :: "string option"
  ResourceType :: "string option"

record Tag =
  Key :: "string option"
  Value :: "string option"

record AwsStack =
  DetailsDescription :: "string option"
  DetailsCreationTime :: "Time option"
  DetailsLastUpdatedTime :: "Time option"
  DetailsTags :: "Tag list"

record StackSummary =
  SummaryStackName :: "string option"
  SummaryStackId :: "string option"
  SummaryCreationTime :: "Time option"
  SummaryLastUpdatedTime :: "Time option"

text \<open>
  \<^verbatim>\<open>models.Stack\<close>. \<^verbatim>\<open>StackTags\<close> is a Go map: \<open>None\<close> is the nil map (what the zero
  value of the struct holds, serialized as \<^verbatim>\<open>null\<close>), \<open>Some m\<close> a map made by
  \<^verbatim>\<open>make\<close>. A nil slice and an empty slice are both \<open>[]\<close>.
\<close>

record Stack =
  StackName :: string
  StackID :: string
  Region :: string
  CreatedAt :: Time
  UpdatedAt :: Time
  Description :: string
  StackTags :: "(string, string) fmap option"
  Reasons :: "string list"

text \<open>
  Go \<^verbatim>\<open>error\<close> values as this repository makes them: \<^verbatim>\<open>errors.New(msg)\<close> and
  \<^verbatim>\<open>fmt.Errorf("context: %w", cause)\<close>, which wraps its cause.
\<close>

datatype error = New string | Errorf string error

fun Unwrap :: "error \<Rightarrow> error option" where
  "Unwrap (New msg) = None"
| "Unwrap (Errorf context cause) = Some cause"

section \<open>Rule engine (internal/detector/rules.go)\<close>

text \<open>
  \<^verbatim>\<open>hasServerlessDeploymentBucket\<close>: the loop returns at the first resource whose two
  pointers are non-nil and point to the two fixed strings.
\<close>

fun hasServerlessDeploymentBucket :: "StackResource list \<Rightarrow> bool" where
  "hasServerlessDeploymentBucket [] = False"
| "hasServerlessDeploymentBucket (resource # resources) =
     (if LogicalResourceId resource \<noteq> None \<and>
         the (LogicalResourceId resource) = ''ServerlessDeploymentBucket'' \<and>
         ResourceType resource \<noteq> None \<and>
         the (ResourceType resource) = ''AWS::S3::Bucket''
      then True
      else hasServerlessDeploymentBucket resources)"

text \<open>The interface \<^verbatim>\<open>DetectionRule\<close>: its two methods.\<close>

record DetectionRule =
  Check :: "StackResource list \<Rightarrow> AwsStack option \<Rightarrow> bool \<times> string"
  Name :: string

text \<open>
  \<^verbatim>\<open>ServerlessDeploymentBucketRule.Check\<close>. The reason string ends with a single quote,
  written \<open>CHR 0x27\<close>.
\<close>

definition ServerlessDeploymentBucketRule_Check ::
  "StackResource list \<Rightarrow> AwsStack option \<Rightarrow> bool \<times> string" where
  "ServerlessDeploymentBucketRule_Check resources details =
     (if hasServerlessDeploymentBucket resources
      then (True, ''Contains resource with logical ID 'ServerlessDeploymentBucket'' @ [CHR 0x27])
      else (False, ''''))"

definition ServerlessDeploymentBucketRule :: DetectionRule where
  "ServerlessDeploymentBucketRule =
     \<lparr>Check = ServerlessDeploymentBucketRule_Check, Name = ''ServerlessDeploymentBucket''\<rparr>"

record RuleEngine =
  rules :: "DetectionRule list"

definition NewRuleEngine :: RuleEngine where
  "NewRuleEngine = \<lparr>rules = [ServerlessDeploymentBucketRule]\<rparr>"

definition AddRule :: "RuleEngine \<Rightarrow> DetectionRule \<Rightarrow> RuleEngine" where
  "AddRule re rule = re\<lparr>rules := rules re @ [rule]\<rparr>"

text \<open>
  The loop of \<^verbatim>\<open>Evaluate\<close>, with its two local variables \<^verbatim>\<open>isServerless\<close> and
  \<^verbatim>\<open>reasons\<close> as the accumulator.
\<close>

fun Evaluate_loop ::
  "DetectionRule list \<Rightarrow> StackResource list \<Rightarrow> AwsStack option \<Rightarrow> bool \<times> string list
     \<Rightarrow> bool \<times> string list" where
  "Evaluate_loop [] resources details acc = acc"
| "Evaluate_loop (rule # rest) resources details (isServerless, reasons) =
     (case Check rule resources details of
        (matches, reason) \<Rightarrow>
          if matches then Evaluate_loop rest resources details (True, reasons @ [reason])
          else Evaluate_loop rest resources details (isServerless, reasons))"

definition Evaluate ::
  "RuleEngine \<Rightarrow> StackResource list \<Rightarrow> AwsStack option \<Rightarrow> bool \<times> string list" where
  "Evaluate re resources details = Evaluate_loop (rules re) resources details (False, [])"

text \<open>
  The same loop with the rules as objects. In Go a \<^verbatim>\<open>DetectionRule\<close> is an interface
  value holding a pointer to a struct, and \<^verbatim>\<open>Check\<close> has a pointer receiver: a call
  can write to the fields of its receiver, to the elements of the resource slice and to
  the stack its details pointer refers to. \<open>CheckMethod\<close> takes the fields of the
  receiver and the two arguments, and returns the result of the call together with
  what the call leaves in the receiver and in the two arguments; \<open>NameMethod\<close> reads
  the receiver. \<^verbatim>\<open>Evaluate\<close> calls the rules in order on what the calls before have left,
  with \<^verbatim>\<open>isServerless\<close> and \<^verbatim>\<open>reasons\<close> local to the call, and leaves the rule list
  with the receivers as the calls left them.
\<close>

record 's RuleObject =
  receiver :: 's
  CheckMethod ::
    "'s \<Rightarrow> StackResource list \<Rightarrow> AwsStack option
       \<Rightarrow> (bool \<times> string) \<times> 's \<times> StackResource list \<times> AwsStack option"
  NameMethod :: "'s \<Rightarrow> string"

fun Evaluate_loop_objects ::
  "'s RuleObject list \<Rightarrow> StackResource list \<Rightarrow> AwsStack option \<Rightarrow> bool \<times> string list
     \<Rightarrow> (bool \<times> string list) \<times> 's RuleObject list \<times> StackResource list \<times> AwsStack option"
  where
  "Evaluate_loop_objects [] resources details acc = (acc, [], resources, details)"
| "Evaluate_loop_objects (rule # rest) resources details (isServerless, reasons) =
     (case CheckMethod rule (receiver rule) resources details of
        ((matches, reason), receiver', resources', details') \<Rightarrow>
          (case Evaluate_loop_objects rest resources' details'
                  (if matches then (True, reasons @ [reason]) else (isServerless, reasons)) of
             (verdict, rest', resources'', details'') \<Rightarrow>
               (verdict, rule\<lparr>receiver := receiver'\<rparr> # rest', resources'', details'')))"

definition Evaluate_objects ::
  "'s RuleObject list \<Rightarrow> StackResource list \<Rightarrow> AwsStack option
     \<Rightarrow> (bool \<times> string list) \<times> 's RuleObject list \<times> StackResource list \<times> AwsStack option"
  where
  "Evaluate_objects rs resources details = Evaluate_loop_objects rs resources details (False, [])"

text \<open>
  \<^verbatim>\<open>ServerlessDeploymentBucketRule\<close> as an object: the struct has no fields, and the
  bodies of \<^verbatim>\<open>Check\<close> and \<^verbatim>\<open>hasServerlessDeploymentBucket\<close> only read their arguments.
\<close>

definition ServerlessDeploymentBucketRule_object :: "unit RuleObject" where
  "ServerlessDeploymentBucketRule_object =
     \<lparr>receiver = (),
      CheckMethod = (\<lambda>r resources details.
        (if hasServerlessDeploymentBucket resources
         then (True, ''Contains resource with logical ID 'ServerlessDeploymentBucket'' @ [CHR 0x27])
         else (False, ''''),
         r, resources, details)),
      NameMethod = (\<lambda>r. ''ServerlessDeploymentBucket'')\<rparr>"

text \<open>The rule a rule object is for as long as its receiver stays as it is.\<close>

definition as_DetectionRule :: "'s RuleObject \<Rightarrow> DetectionRule" where
  "as_DetectionRule rule =
     \<lparr>Check = (\<lambda>resources details. fst (CheckMethod rule (receiver rule) resources details)),
      Name = NameMethod rule (receiver rule)\<rparr>"

section \<open>Detection coordinator (package detector)\<close>

text \<open>
  The interface \<^verbatim>\<open>AWSClient\<close>. A Go method returning \<^verbatim>\<open>(value, error)\<close> is a pair whose
  second component is \<open>None\<close> for a nil error; both components are kept, since the
  callers test the error only. The answers are functions of the stack name: the
  context argument and the time of the call are not modelled.
\<close>

record AWSClient =
  ListActiveStacks :: "StackSummary list \<times> error option"
  GetStackResources :: "string \<Rightarrow> StackResource list \<times> error option"
  GetStackDetails :: "string \<Rightarrow> AwsStack option \<times> error option"

record Detector =
  client :: AWSClient
  region :: string
  ruleEngine :: RuleEngine
  maxWorkers :: int

definition NewDetector :: "AWSClient \<Rightarrow> string \<Rightarrow> Detector" where
  "NewDetector c r = \<lparr>client = c, region = r, ruleEngine = NewRuleEngine, maxWorkers = 10\<rparr>"

text \<open>The loop over \<^verbatim>\<open>details.Tags\<close> in \<^verbatim>\<open>convertToModel\<close>, on the map made before it.\<close>

fun convertTags :: "Tag list \<Rightarrow> (string, string) fmap \<Rightarrow> (string, string) fmap" where
  "convertTags [] m = m"
| "convertTags (tag # tags) m =
     (if Key tag \<noteq> None \<and> Value tag \<noteq> None
      then convertTags tags (fmupd (the (Key tag)) (the (Value tag)) m)
      else convertTags tags m)"

text \<open>
  \<^verbatim>\<open>convertToModel\<close>, one \<open>let\<close> per statement of the source. The struct literal leaves
  every field but \<^verbatim>\<open>Region\<close> and \<^verbatim>\<open>Reasons\<close> at its zero value. \<open>now\<close> is what
  \<^verbatim>\<open>time.Now()\<close> returns.
\<close>

definition convertToModel ::
  "Detector \<Rightarrow> Time \<Rightarrow> StackSummary \<Rightarrow> AwsStack option \<Rightarrow> string list \<Rightarrow> Stack" where
  "convertToModel d now summary details reasons =
     (let stack = \<lparr>StackName = [], StackID = [], Region = region d, CreatedAt = 0,
                   UpdatedAt = 0, Description = [], StackTags = None, Reasons = reasons\<rparr>;
          stack = (case SummaryStackName summary of
                     Some n \<Rightarrow> stack\<lparr>StackName := n\<rparr> | None \<Rightarrow> stack);
          stack = (case SummaryStackId summary of
                     Some i \<Rightarrow> stack\<lparr>StackID := i\<rparr> | None \<Rightarrow> stack);
          stack =
            (case details of
               Some dt \<Rightarrow>
                 (let stack = (case DetailsDescription dt of
                                 Some t \<Rightarrow> stack\<lparr>Description := t\<rparr> | None \<Rightarrow> stack);
                      stack = (case DetailsCreationTime dt of
                                 Some t \<Rightarrow> stack\<lparr>CreatedAt := t\<rparr> | None \<Rightarrow> stack);
                      stack = (case DetailsLastUpdatedTime dt of
                                 Some t \<Rightarrow> stack\<lparr>UpdatedAt := t\<rparr> | None \<Rightarrow> stack)
                  in stack\<lparr>StackTags := Some (convertTags (DetailsTags dt) fmempty)\<rparr>)
             | None \<Rightarrow>
                 (let stack = (case SummaryCreationTime summary of
                                 Some t \<Rightarrow> stack\<lparr>CreatedAt := t\<rparr> | None \<Rightarrow> stack);
                      stack = (case SummaryLastUpdatedTime summary of
                                 Some t \<Rightarrow> stack\<lparr>UpdatedAt := t\<rparr> | None \<Rightarrow> stack)
                  in stack\<lparr>StackTags := Some fmempty\<rparr>));
          stack = (if IsZero (CreatedAt stack) then stack\<lparr>CreatedAt := now\<rparr> else stack);
          stack = (if IsZero (UpdatedAt stack) then stack\<lparr>UpdatedAt := CreatedAt stack\<rparr>
                   else stack)
      in stack)"

text \<open>\<^verbatim>\<open>processStack\<close>: \<open>None\<close> is the nil result.\<close>

definition processStack :: "Detector \<Rightarrow> Time \<Rightarrow> StackSummary \<Rightarrow> Stack option" where
  "processStack d now summary =
     (case SummaryStackName summary of
        None \<Rightarrow> None
      | Some stackName \<Rightarrow>
          (case GetStackResources (client d) stackName of
             (resources, Some err) \<Rightarrow> None
           | (resources, None) \<Rightarrow>
               (let (details, err) = GetStackDetails (client d) stackName;
                    details = (if err \<noteq> None then None else details);
                    (isServerless, reasons) = Evaluate (ruleEngine d) resources details
                in if isServerless
                   then Some (convertToModel d now summary details reasons)
                   else None)))"

text \<open>
  \<^verbatim>\<open>numWorkers\<close> in \<^verbatim>\<open>processStacksConcurrently\<close>; the spawning loop runs
  \<open>nat numWorkers\<close> times.
\<close>

definition numWorkers :: "Detector \<Rightarrow> StackSummary list \<Rightarrow> int" where
  "numWorkers d summaries =
     (if int (length summaries) < maxWorkers d then int (length summaries) else maxWorkers d)"

text \<open>
  The goroutines of \<^verbatim>\<open>processStacksConcurrently\<close> as a transition system. A worker
  is waiting to receive from \<^verbatim>\<open>jobs\<close>, or holds the result of \<^verbatim>\<open>processStack\<close> that it
  is about to send on \<^verbatim>\<open>results\<close>, or has left its loop (\<^verbatim>\<open>wg.Done\<close>).
\<close>

datatype worker = Receiving | Sending "Stack option" | Exited

text \<open>
  The state of one scan: the summaries the main goroutine has not sent yet, the two
  buffered channels with their closed flags, the workers, the slice the main
  goroutine collects into, and whether it has returned.
\<close>

record pool =
  unsent :: "StackSummary list"
  jobs :: "StackSummary list"
  jobs_closed :: bool
  workers :: "worker list"
  results :: "Stack option list"
  results_closed :: bool
  serverlessStacks :: "Stack list"
  returned :: bool

definition start :: "Detector \<Rightarrow> StackSummary list \<Rightarrow> pool" where
  "start d summaries =
     \<lparr>unsent = summaries, jobs = [], jobs_closed = False,
      workers = replicate (nat (numWorkers d summaries)) Receiving,
      results = [], results_closed = False, serverlessStacks = [], returned = False\<rparr>"

text \<open>
  One step of one goroutine. \<open>cap\<close> is the capacity of both channels,
  \<^verbatim>\<open>len(summaries)\<close>: a send needs room in the buffer. The main goroutine sends every
  summary, closes \<^verbatim>\<open>jobs\<close>, then receives from \<^verbatim>\<open>results\<close> until it is closed and
  empty. The goroutine started after \<^verbatim>\<open>close(jobs)\<close> closes \<^verbatim>\<open>results\<close> once every
  worker has left.
\<close>

inductive step :: "Detector \<Rightarrow> Time \<Rightarrow> nat \<Rightarrow> pool \<Rightarrow> pool \<Rightarrow> bool"
  for d :: Detector and now :: Time and cap :: nat where
  send_job:
    "unsent p = summary # rest \<Longrightarrow> length (jobs p) < cap \<Longrightarrow>
     step d now cap p (p\<lparr>unsent := rest, jobs := jobs p @ [summary]\<rparr>)"
| close_jobs:
    "unsent p = [] \<Longrightarrow> \<not> jobs_closed p \<Longrightarrow>
     step d now cap p (p\<lparr>jobs_closed := True\<rparr>)"
| worker_receive:
    "i < length (workers p) \<Longrightarrow> workers p ! i = Receiving \<Longrightarrow> jobs p = summary # rest \<Longrightarrow>
     step d now cap p
       (p\<lparr>jobs := rest, workers := (workers p)[i := Sending (processStack d now summary)]\<rparr>)"
| worker_send:
    "i < length (workers p) \<Longrightarrow> workers p ! i = Sending result \<Longrightarrow>
     length (results p) < cap \<Longrightarrow>
     step d now cap p
       (p\<lparr>results := results p @ [result], workers := (workers p)[i := Receiving]\<rparr>)"
| worker_exit:
    "i < length (workers p) \<Longrightarrow> workers p ! i = Receiving \<Longrightarrow> jobs p = [] \<Longrightarrow>
     jobs_closed p \<Longrightarrow>
     step d now cap p (p\<lparr>workers := (workers p)[i := Exited]\<rparr>)"
| close_results:
    "jobs_closed p \<Longrightarrow> set (workers p) \<subseteq> {Exited} \<Longrightarrow> \<not> results_closed p \<Longrightarrow>
     step d now cap p (p\<lparr>results_closed := True\<rparr>)"
| collect:
    "jobs_closed p \<Longrightarrow> \<not> returned p \<Longrightarrow> results p = result # rest \<Longrightarrow>
     step d now cap p
       (p\<lparr>results := rest,
          serverlessStacks :=
            (case result of None \<Rightarrow> serverlessStacks p
             | Some stack \<Rightarrow> serverlessStacks p @ [stack])\<rparr>)"
| return:
    "jobs_closed p \<Longrightarrow> \<not> returned p \<Longrightarrow> results p = [] \<Longrightarrow> results_closed p \<Longrightarrow>
     step d now cap p (p\<lparr>returned := True\<rparr>)"

text \<open>
  \<^verbatim>\<open>processStacksConcurrently\<close> returns what the main goroutine has collected when it
  returns, after any interleaving of the steps, with a nil error.
\<close>

inductive processStacksConcurrently ::
  "Detector \<Rightarrow> Time \<Rightarrow> StackSummary list \<Rightarrow> Stack list \<times> error option \<Rightarrow> bool"
  for d :: Detector and now :: Time and summaries :: "StackSummary list" where
  "(step d now (length summaries))\<^sup>*\<^sup>* (start d summaries) p \<Longrightarrow> returned p \<Longrightarrow>
   processStacksConcurrently d now summaries (serverlessStacks p, None)"

text \<open>\<^verbatim>\<open>DetectServerlessStacks\<close>: the listing error is returned with a nil slice.\<close>

inductive DetectServerlessStacks :: "Detector \<Rightarrow> Time \<Rightarrow> Stack list \<times> error option \<Rightarrow> bool"
  for d :: Detector and now :: Time where
  listing_failed:
    "ListActiveStacks (client d) = (summaries, Some err) \<Longrightarrow>
     DetectServerlessStacks d now ([], Some err)"
| listing_ok:
    "ListActiveStacks (client d) = (summaries, None) \<Longrightarrow>
     processStacksConcurrently d now summaries res \<Longrightarrow>
     DetectServerlessStacks d now res"

section \<open>TSV output (internal/output/formatter.go)\<close>

text \<open>
  \<^verbatim>\<open>strings.Join\<close>, and \<^verbatim>\<open>strings.ReplaceAll\<close> for a one-byte pattern, which is how
  \<^verbatim>\<open>escapeValue\<close> calls it. Tab, newline, carriage return and backslash are
  \<open>CHR 0x09\<close>, \<open>CHR 0x0A\<close>, \<open>CHR 0x0D\<close> and \<open>CHR 0x5C\<close>.
\<close>

fun Join :: "string list \<Rightarrow> string \<Rightarrow> string" where
  "Join [] sep = []"
| "Join [x] sep = x"
| "Join (x # y # ys) sep = x @ sep @ Join (y # ys) sep"

fun ReplaceAll :: "string \<Rightarrow> char \<Rightarrow> string \<Rightarrow> string" where
  "ReplaceAll [] old new = []"
| "ReplaceAll (c # s) old new =
     (if c = old then new @ ReplaceAll s old new else c # ReplaceAll s old new)"

text \<open>\<^verbatim>\<open>strings.HasSuffix\<close>.\<close>

definition HasSuffix :: "string \<Rightarrow> string \<Rightarrow> bool" where
  "HasSuffix s suffix \<longleftrightarrow>
     length suffix \<le> length s \<and> drop (length s - length suffix) s = suffix"

definition escapeValue :: "string \<Rightarrow> string" where
  "escapeValue value =
     (let value = ReplaceAll value (CHR 0x09) [CHR 0x5C, CHR ''t''];
          value = ReplaceAll value (CHR 0x0A) [CHR 0x5C, CHR ''n''];
          value = ReplaceAll value (CHR 0x0D) [CHR 0x5C, CHR ''r'']
      in value)"

text \<open>
  \<^verbatim>\<open>formatTime\<close>. \<open>rfc3339\<close> is \<^verbatim>\<open>t.Format(time.RFC3339)\<close> of the standard library,
  a parameter of the model.
\<close>

definition formatTime :: "(Time \<Rightarrow> string) \<Rightarrow> Time \<Rightarrow> string" where
  "formatTime rfc3339 t = (if IsZero t then [] else rfc3339 t)"

text \<open>
  \<^verbatim>\<open>formatTags\<close>. The keys are collected in the iteration order of the map and then
  sorted by \<^verbatim>\<open>sort.Strings\<close>, which gives the sorted list of the key set; strings are
  ordered bytewise, a proper prefix first. The nil map has length 0.
\<close>

definition formatTags :: "(string, string) fmap option \<Rightarrow> string" where
  "formatTags tags =
     (case tags of
        None \<Rightarrow> []
      | Some m \<Rightarrow>
          if fcard (fmdom m) = 0 then []
          else
            (let keys = sorted_list_of_fset (fmdom m);
                 pairs = map (\<lambda>key. escapeValue key @ ''='' @
                                 escapeValue (case fmlookup m key of Some v \<Rightarrow> v | None \<Rightarrow> []))
                             keys
             in Join pairs '';''))"

definition formatReasons :: "string list \<Rightarrow> string" where
  "formatReasons reasons =
     (if length reasons = 0 then [] else Join (map escapeValue reasons) '';'')"

text \<open>The loop of \<^verbatim>\<open>TSVFormatter.Format\<close> that appends one row to the builder per stack.\<close>

fun write_rows :: "(Time \<Rightarrow> string) \<Rightarrow> Stack list \<Rightarrow> string \<Rightarrow> string" where
  "write_rows rfc3339 [] result = result"
| "write_rows rfc3339 (stack # stacks) result =
     write_rows rfc3339 stacks
       (result @
        Join [escapeValue (StackName stack), escapeValue (StackID stack),
              escapeValue (Region stack), escapeValue (Description stack),
              formatTime rfc3339 (CreatedAt stack), formatTime rfc3339 (UpdatedAt stack),
              formatTags (StackTags stack), formatReasons (Reasons stack)] [CHR 0x09] @
        [CHR 0x0A])"

definition Format :: "(Time \<Rightarrow> string) \<Rightarrow> Stack list \<Rightarrow> string \<times> error option" where
  "Format rfc3339 stacks =
     (let result =
            Join [''StackName'', ''StackID'', ''Region'', ''Description'', ''CreatedAt'',
                  ''UpdatedAt'', ''Tags'', ''Reasons''] [CHR 0x09] @ [CHR 0x0A];
          result = write_rows rfc3339 stacks result;
          output = (if HasSuffix result [CHR 0x0A] then take (length result - 1) result
                    else result)
      in (output, None))"

section \<open>Inputs of the repository's tests\<close>

text \<open>
  The data of the mock clients in the detector's tests: a stack summary with a name,
  the signature resource, a client whose listing fails, one whose detail fetch fails,
  one whose resource fetch fails for one stack, one with no stacks, and the stack the
  detector reports for a summary when there are no details.
\<close>

definition bucket :: StackResource where
  "bucket = \<lparr>LogicalResourceId = Some ''ServerlessDeploymentBucket'',
             ResourceType = Some ''AWS::S3::Bucket''\<rparr>"

definition summary_of :: "string \<Rightarrow> StackSummary" where
  "summary_of name =
     \<lparr>SummaryStackName = Some name, SummaryStackId = Some (''arn:'' @ name),
      SummaryCreationTime = None, SummaryLastUpdatedTime = None\<rparr>"

definition listing_error_client :: AWSClient where
  "listing_error_client =
     \<lparr>ListActiveStacks = ([], Some (New ''access denied to list stacks'')),
      GetStackResources = (\<lambda>stackName. ([bucket], None)),
      GetStackDetails = (\<lambda>stackName. (None, None))\<rparr>"

definition details_error_client :: AWSClient where
  "details_error_client =
     \<lparr>ListActiveStacks = ([summary_of ''test-stack''], None),
      GetStackResources = (\<lambda>stackName. ([bucket], None)),
      GetStackDetails = (\<lambda>stackName. (None, Some (New ''stack details not accessible'')))\<rparr>"

definition selective_error_client :: AWSClient where
  "selective_error_client =
     \<lparr>ListActiveStacks = ([summary_of ''good-stack'', summary_of ''failing-stack''], None),
      GetStackResources =
        (\<lambda>stackName. if stackName = ''failing-stack''
                      then ([], Some (New ''resource access failed''))
                      else ([bucket], None)),
      GetStackDetails = (\<lambda>stackName. (None, None))\<rparr>"

definition empty_client :: AWSClient where
  "empty_client =
     \<lparr>ListActiveStacks = ([], None),
      GetStackResources = (\<lambda>stackName. ([], None)),
      GetStackDetails = (\<lambda>stackName. (None, None))\<rparr>"

definition reported :: "string \<Rightarrow> Time \<Rightarrow> Stack" where
  "reported name now =
     \<lparr>StackName = name, StackID = ''arn:'' @ name, Region = ''us-east-1'', CreatedAt = now,
      UpdatedAt = now, Description = [], StackTags = Some fmempty,
      Reasons = [''Contains resource with logical ID 'ServerlessDeploymentBucket'' @ [CHR 0x27]]\<rparr>"

text \<open>
  \<^verbatim>\<open>mockDetectionRule\<close> of the rule engine's tests, a rule with fields that it only reads,
  as registered by \<^verbatim>\<open>TestRuleEngine_EvaluateWithMultipleRules\<close>; and a rule that counts its
  calls and matches on the first one only, which the interface admits and the
  repository does not have.
\<close>

record mockDetectionRule =
  mock_name :: string
  mock_matches :: bool
  mock_reason :: string

definition mockDetectionRule_object :: "mockDetectionRule \<Rightarrow> mockDetectionRule RuleObject" where
  "mockDetectionRule_object m =
     \<lparr>receiver = m,
      CheckMethod = (\<lambda>m resources details.
        (if mock_matches m then (True, mock_reason m) else (False, ''''), m, resources, details)),
      NameMethod = mock_name\<rparr>"

definition AlwaysMatch :: mockDetectionRule where
  "AlwaysMatch =
     \<lparr>mock_name = ''AlwaysMatch'', mock_matches = True,
      mock_reason = ''Always matches for testing''\<rparr>"

definition counting_rule :: "nat RuleObject" where
  "counting_rule =
     \<lparr>receiver = 0,
      CheckMethod = (\<lambda>calls resources details.
        ((calls = 0, ''first call''), Suc calls, resources, details)),
      NameMethod = (\<lambda>calls. ''Counting'')\<rparr>"

section \<open>Auxiliary notions for the proofs\<close>

text \<open>
  What a scan reports when the stacks are processed one after the other in listing
  order: the reference the concurrent runs are compared with.
\<close>

fun emitted :: "Detector \<Rightarrow> Time \<Rightarrow> StackSummary list \<Rightarrow> Stack list" where
  "emitted d now [] = []"
| "emitted d now (summary # rest) =
     (case processStack d now summary of
        None \<Rightarrow> emitted d now rest
      | Some stack \<Rightarrow> stack # emitted d now rest)"

text \<open>The stack a worker is about to send, if any.\<close>

fun held :: "worker \<Rightarrow> Stack multiset" where
  "held (Sending (Some stack)) = {#stack#}"
| "held w = {#}"

text \<open>
  The stacks still to come out of a state, together with those already collected:
  every step keeps this multiset.
\<close>

definition ledger :: "Detector \<Rightarrow> Time \<Rightarrow> pool \<Rightarrow> Stack multiset" where
  "ledger d now p =
     mset (emitted d now (unsent p @ jobs p)) +
     sum_list (map held (workers p)) +
     sum_list (map (held \<circ> Sending) (results p)) +
     mset (serverlessStacks p)"

text \<open>The number of steps a state can still take is bounded by its potential.\<close>

fun weight :: "worker \<Rightarrow> nat" where
  "weight Receiving = 1"
| "weight (Sending r) = 3"
| "weight Exited = 0"

definition potential :: "pool \<Rightarrow> nat" where
  "potential p =
     4 * length (unsent p) + 3 * length (jobs p) + sum_list (map weight (workers p)) +
     length (results p) + (if jobs_closed p then 0 else 1) +
     (if results_closed p then 0 else 1) + (if returned p then 0 else 1)"

fun busy :: "worker \<Rightarrow> nat" where
  "busy (Sending r) = 1"
| "busy w = 0"

text \<open>
  The invariant of the reachable states: the number of workers is fixed; \<^verbatim>\<open>jobs\<close> is
  closed only after every summary is sent; a worker leaves only when \<^verbatim>\<open>jobs\<close> is closed
  and drained; \<^verbatim>\<open>results\<close> is closed only after every worker has left; the main
  goroutine returns only from a closed and drained \<^verbatim>\<open>results\<close>; without workers nothing
  is produced; and the values in transit never exceed the capacity of the channels.
\<close>

definition pool_inv :: "nat \<Rightarrow> nat \<Rightarrow> pool \<Rightarrow> bool" where
  "pool_inv cap n p \<longleftrightarrow>
     length (workers p) = n \<and>
     (\<not> jobs_closed p \<or> unsent p = []) \<and>
     (Exited \<notin> set (workers p) \<or> (jobs p = [] \<and> jobs_closed p)) \<and>
     (\<not> results_closed p \<or> (set (workers p) \<subseteq> {Exited} \<and> jobs_closed p)) \<and>
     (\<not> returned p \<or> (results_closed p \<and> results p = [])) \<and>
     (workers p \<noteq> [] \<or> (results p = [] \<and> serverlessStacks p = [])) \<and>
     length (unsent p) + length (jobs p) + sum_list (map busy (workers p)) + length (results p)
       \<le> cap"

section \<open>Properties of the rule engine\<close>

lemma hasServerlessDeploymentBucket_iff:
  "hasServerlessDeploymentBucket resources \<longleftrightarrow>
     (\<exists>r \<in> set resources.
        LogicalResourceId r = Some ''ServerlessDeploymentBucket'' \<and>
        ResourceType r = Some ''AWS::S3::Bucket'')"
  by (induction resources) auto

lemma Evaluate_loop_eq:
  "Evaluate_loop rs resources details (b, acc) =
     (b \<or> (\<exists>rule \<in> set rs. fst (Check rule resources details)),
      acc @ map (\<lambda>rule. snd (Check rule resources details))
              (filter (\<lambda>rule. fst (Check rule resources details)) rs))"
  by (induction rs arbitrary: b acc) (auto split: prod.splits)

lemma Evaluate_eq:
  "Evaluate re resources details =
     ((\<exists>rule \<in> set (rules re). fst (Check rule resources details)),
      map (\<lambda>rule. snd (Check rule resources details))
          (filter (\<lambda>rule. fst (Check rule resources details)) (rules re)))"
  by (simp add: Evaluate_def Evaluate_loop_eq)

lemma Evaluate_match_iff:
  "fst (Evaluate re resources details) \<longleftrightarrow> snd (Evaluate re resources details) \<noteq> []"
  by (auto simp: Evaluate_eq filter_empty_conv)

lemma Evaluate_default:
  "Evaluate NewRuleEngine resources details =
     (if hasServerlessDeploymentBucket resources
      then (True, [''Contains resource with logical ID 'ServerlessDeploymentBucket'' @ [CHR 0x27]])
      else (False, []))"
  by (simp add: Evaluate_def NewRuleEngine_def ServerlessDeploymentBucketRule_def
      ServerlessDeploymentBucketRule_Check_def)

text \<open>
  C1. The signature-bucket rule matches exactly when some resource has the logical
  identifier \<^verbatim>\<open>ServerlessDeploymentBucket\<close> and the type \<^verbatim>\<open>AWS::S3::Bucket\<close>, both
  compared as whole strings; it then gives the fixed reason, and otherwise the empty
  reason. An empty resource list never matches.
\<close>

theorem signature_bucket_rule:
  "Check ServerlessDeploymentBucketRule resources details =
     (if \<exists>r \<in> set resources.
           LogicalResourceId r = Some ''ServerlessDeploymentBucket'' \<and>
           ResourceType r = Some ''AWS::S3::Bucket''
      then (True, ''Contains resource with logical ID 'ServerlessDeploymentBucket'' @ [CHR 0x27])
      else (False, ''''))
   \<and> Check ServerlessDeploymentBucketRule [] details = (False, '''')"
  by (simp add: ServerlessDeploymentBucketRule_def ServerlessDeploymentBucketRule_Check_def
      hasServerlessDeploymentBucket_iff)

theorem signature_bucket_rule_witness:
  "Check ServerlessDeploymentBucketRule
     [\<lparr>LogicalResourceId = Some ''MyFunction'', ResourceType = Some ''AWS::Lambda::Function''\<rparr>,
      \<lparr>LogicalResourceId = Some ''ServerlessDeploymentBucket'',
       ResourceType = Some ''AWS::S3::Bucket''\<rparr>] None =
     (True, ''Contains resource with logical ID 'ServerlessDeploymentBucket'' @ [CHR 0x27])
   \<and> Check ServerlessDeploymentBucketRule
     [\<lparr>LogicalResourceId = Some ''ServerlessDeploymentBucket'',
       ResourceType = Some ''AWS::Lambda::Function''\<rparr>,
      \<lparr>LogicalResourceId = Some ''MyBucket'', ResourceType = Some ''AWS::S3::Bucket''\<rparr>,
      \<lparr>LogicalResourceId = Some ''serverlessdeploymentbucket'',
       ResourceType = Some ''AWS::S3::Bucket''\<rparr>,
      \<lparr>LogicalResourceId = Some ''ServerlessDeploymentBucket2'',
       ResourceType = Some ''AWS::S3::Bucket''\<rparr>,
      \<lparr>LogicalResourceId = None, ResourceType = Some ''AWS::S3::Bucket''\<rparr>,
      \<lparr>LogicalResourceId = Some ''ServerlessDeploymentBucket'', ResourceType = None\<rparr>] None =
     (False, '''')"
  using signature_bucket_rule
    [of "[\<lparr>LogicalResourceId = Some ''MyFunction'',
           ResourceType = Some ''AWS::Lambda::Function''\<rparr>,
          \<lparr>LogicalResourceId = Some ''ServerlessDeploymentBucket'',
           ResourceType = Some ''AWS::S3::Bucket''\<rparr>]" None]
    signature_bucket_rule
    [of "[\<lparr>LogicalResourceId = Some ''ServerlessDeploymentBucket'',
           ResourceType = Some ''AWS::Lambda::Function''\<rparr>,
          \<lparr>LogicalResourceId = Some ''MyBucket'', ResourceType = Some ''AWS::S3::Bucket''\<rparr>,
          \<lparr>LogicalResourceId = Some ''serverlessdeploymentbucket'',
           ResourceType = Some ''AWS::S3::Bucket''\<rparr>,
          \<lparr>LogicalResourceId = Some ''ServerlessDeploymentBucket2'',
           ResourceType = Some ''AWS::S3::Bucket''\<rparr>,
          \<lparr>LogicalResourceId = None, ResourceType = Some ''AWS::S3::Bucket''\<rparr>,
          \<lparr>LogicalResourceId = Some ''ServerlessDeploymentBucket'', ResourceType = None\<rparr>]"
      None]
  by simp

text \<open>
  C2. For any rule set and any input, the verdict of \<^verbatim>\<open>Evaluate\<close> is a match exactly
  when its reason list is not empty, and the reason list holds the reason of each
  matching rule, in the order of the rule list; \<^verbatim>\<open>AddRule\<close> registers at the end of
  that list.
\<close>

theorem Evaluate_verdict:
  "(fst (Evaluate re resources details) \<longleftrightarrow> snd (Evaluate re resources details) \<noteq> [])
   \<and> snd (Evaluate re resources details) =
       map (\<lambda>rule. snd (Check rule resources details))
           (filter (\<lambda>rule. fst (Check rule resources details)) (rules re))
   \<and> rules (AddRule re rule) = rules re @ [rule]"
  by (auto simp: Evaluate_eq AddRule_def filter_empty_conv)

theorem Evaluate_verdict_witness:
  "fst (Evaluate NewRuleEngine [bucket] None) \<and>
   snd (Evaluate NewRuleEngine [bucket] None) =
     [''Contains resource with logical ID 'ServerlessDeploymentBucket'' @ [CHR 0x27]] \<and>
   \<not> fst (Evaluate NewRuleEngine [] None) \<and> snd (Evaluate NewRuleEngine [] None) = []"
  using Evaluate_verdict[of NewRuleEngine "[bucket]" None]
    Evaluate_verdict[of NewRuleEngine "[]" None]
  by (simp add: NewRuleEngine_def ServerlessDeploymentBucketRule_def
      ServerlessDeploymentBucketRule_Check_def bucket_def)

lemma Evaluate_loop_objects_unchanged:
  assumes "\<forall>rule \<in> set rs. \<forall>resources details.
      snd (CheckMethod rule (receiver rule) resources details) = (receiver rule, resources, details)"
  shows "Evaluate_loop_objects rs resources details acc =
     (Evaluate_loop (map as_DetectionRule rs) resources details acc, rs, resources, details)"
  using assms
proof (induction rs arbitrary: acc)
  case Nil
  then show ?case by simp
next
  case (Cons rule rest)
  obtain isServerless reasons where acc: "acc = (isServerless, reasons)" by (cases acc)
  obtain m r f rs' d' where c:
    "CheckMethod rule (receiver rule) resources details = ((m, r), f, rs', d')"
    by (metis surj_pair)
  from Cons.prems have "snd (CheckMethod rule (receiver rule) resources details) =
      (receiver rule, resources, details)" by simp
  with c have same: "f = receiver rule" "rs' = resources" "d' = details" by simp_all
  from Cons.prems have rest: "\<forall>rule \<in> set rest. \<forall>resources details.
      snd (CheckMethod rule (receiver rule) resources details) = (receiver rule, resources, details)"
    by simp
  show ?case
    by (simp add: acc c same Cons.IH[OF rest] as_DetectionRule_def)
qed

lemma Evaluate_objects_unchanged:
  assumes "\<forall>rule \<in> set rs. \<forall>resources details.
      snd (CheckMethod rule (receiver rule) resources details) = (receiver rule, resources, details)"
  shows "Evaluate_objects rs resources details =
     (Evaluate \<lparr>rules = map as_DetectionRule rs\<rparr> resources details, rs, resources, details)"
  by (simp add: Evaluate_objects_def Evaluate_def Evaluate_loop_objects_unchanged[OF assms])

lemma as_DetectionRule_builtin:
  "as_DetectionRule ServerlessDeploymentBucketRule_object = ServerlessDeploymentBucketRule"
  by (simp add: as_DetectionRule_def ServerlessDeploymentBucketRule_object_def
      ServerlessDeploymentBucketRule_def ServerlessDeploymentBucketRule_Check_def fun_eq_iff)

text \<open>
  A rule that keeps state between calls: the second evaluation of the same input gives
  another verdict than the first.
\<close>

lemma Evaluate_objects_counting_rule:
  "Evaluate_objects [counting_rule] [] None =
     ((True, [''first call'']), [counting_rule\<lparr>receiver := 1\<rparr>], [], None) \<and>
   fst (Evaluate_objects [counting_rule\<lparr>receiver := 1\<rparr>] [] None) = (False, [])"
  by (simp add: Evaluate_objects_def counting_rule_def)

text \<open>
  C8. When no registered rule changes its receiver or its arguments in \<^verbatim>\<open>Check\<close>, an
  evaluation leaves the rules and the input as they were, and a second evaluation of
  the same input returns the same boolean and the same reason list as the first and
  again changes nothing; the verdict is then the one computed from the rules as
  functions of the input. The built-in rule changes nothing, so this holds of the
  engine \<^verbatim>\<open>NewRuleEngine\<close> makes.
\<close>

theorem Evaluate_idempotent:
  assumes "\<forall>rule \<in> set rs. \<forall>resources details.
      snd (CheckMethod rule (receiver rule) resources details) = (receiver rule, resources, details)"
  shows "(case Evaluate_objects rs resources details of
            (first, rs', resources', details') \<Rightarrow>
              rs' = rs \<and> resources' = resources \<and> details' = details \<and>
              Evaluate_objects rs' resources' details' = (first, rs, resources, details)) \<and>
         fst (Evaluate_objects rs resources details) =
           Evaluate \<lparr>rules = map as_DetectionRule rs\<rparr> resources details \<and>
         snd (CheckMethod ServerlessDeploymentBucketRule_object
               (receiver ServerlessDeploymentBucketRule_object) resources details) =
           (receiver ServerlessDeploymentBucketRule_object, resources, details) \<and>
         \<lparr>rules = map as_DetectionRule [ServerlessDeploymentBucketRule_object]\<rparr> = NewRuleEngine"
proof (intro conjI)
  show "case Evaluate_objects rs resources details of
          (first, rs', resources', details') \<Rightarrow>
            rs' = rs \<and> resources' = resources \<and> details' = details \<and>
            Evaluate_objects rs' resources' details' = (first, rs, resources, details)"
    by (simp add: Evaluate_objects_unchanged[OF assms])
  show "fst (Evaluate_objects rs resources details) =
      Evaluate \<lparr>rules = map as_DetectionRule rs\<rparr> resources details"
    by (simp add: Evaluate_objects_unchanged[OF assms])
  show "snd (CheckMethod ServerlessDeploymentBucketRule_object
               (receiver ServerlessDeploymentBucketRule_object) resources details) =
           (receiver ServerlessDeploymentBucketRule_object, resources, details)"
    by (simp add: ServerlessDeploymentBucketRule_object_def)
  show "\<lparr>rules = map as_DetectionRule [ServerlessDeploymentBucketRule_object]\<rparr> = NewRuleEngine"
    by (simp add: as_DetectionRule_builtin NewRuleEngine_def)
qed

theorem Evaluate_idempotent_witness:
  "Evaluate_objects [ServerlessDeploymentBucketRule_object] [bucket] None =
     ((True, [''Contains resource with logical ID 'ServerlessDeploymentBucket'' @ [CHR 0x27]]),
      [ServerlessDeploymentBucketRule_object], [bucket], None) \<and>
   fst (Evaluate_objects
          (fst (snd (Evaluate_objects [ServerlessDeploymentBucketRule_object] [bucket] None)))
          [bucket] None) =
     fst (Evaluate_objects [ServerlessDeploymentBucketRule_object] [bucket] None) \<and>
   fst (Evaluate_objects [mockDetectionRule_object AlwaysMatch] [] None) =
     (True, [''Always matches for testing'']) \<and>
   Evaluate_objects
     (fst (snd (Evaluate_objects [mockDetectionRule_object AlwaysMatch] [] None))) [] None =
     Evaluate_objects [mockDetectionRule_object AlwaysMatch] [] None"
proof -
  have b: "\<forall>rule \<in> set [ServerlessDeploymentBucketRule_object]. \<forall>resources details.
      snd (CheckMethod rule (receiver rule) resources details) = (receiver rule, resources, details)"
    by (simp add: ServerlessDeploymentBucketRule_object_def)
  have m: "\<forall>rule \<in> set [mockDetectionRule_object AlwaysMatch]. \<forall>resources details.
      snd (CheckMethod rule (receiver rule) resources details) = (receiver rule, resources, details)"
    by (simp add: mockDetectionRule_object_def)
  have vb: "Evaluate \<lparr>rules = map as_DetectionRule [ServerlessDeploymentBucketRule_object]\<rparr>
      [bucket] None =
      (True, [''Contains resource with logical ID 'ServerlessDeploymentBucket'' @ [CHR 0x27]])"
    by (simp add: as_DetectionRule_builtin Evaluate_def ServerlessDeploymentBucketRule_def
        ServerlessDeploymentBucketRule_Check_def bucket_def)
  have vm: "Evaluate \<lparr>rules = map as_DetectionRule [mockDetectionRule_object AlwaysMatch]\<rparr>
      [] None = (True, [''Always matches for testing''])"
    by (simp add: as_DetectionRule_def Evaluate_def mockDetectionRule_object_def AlwaysMatch_def)
  from Evaluate_idempotent[OF b, of "[bucket]" None] vb
  have 1: "Evaluate_objects [ServerlessDeploymentBucketRule_object] [bucket] None =
     ((True, [''Contains resource with logical ID 'ServerlessDeploymentBucket'' @ [CHR 0x27]]),
      [ServerlessDeploymentBucketRule_object], [bucket], None)"
    by (cases "Evaluate_objects [ServerlessDeploymentBucketRule_object] [bucket] None") simp
  from Evaluate_idempotent[OF m, of "[]" None] vm
  have 2: "Evaluate_objects [mockDetectionRule_object AlwaysMatch] [] None =
     ((True, [''Always matches for testing'']), [mockDetectionRule_object AlwaysMatch], [], None)"
    by (cases "Evaluate_objects [mockDetectionRule_object AlwaysMatch] [] None") simp
  show ?thesis by (simp add: 1 2)
qed

section \<open>The worker pool: conservation, progress, termination\<close>

lemma held_update:
  "i < length ws \<Longrightarrow>
   sum_list (map held (ws[i := w])) + held (ws ! i) = sum_list (map held ws) + held w"
proof (induction ws arbitrary: i)
  case Nil
  then show ?case by simp
next
  case (Cons a ws)
  show ?case
  proof (cases i)
    case 0
    then show ?thesis by (simp add: ac_simps)
  next
    case (Suc j)
    with Cons.prems have "j < length ws" by simp
    from Cons.IH[OF this] Suc show ?thesis by (simp add: ac_simps)
  qed
qed

lemma weight_update:
  "i < length ws \<Longrightarrow>
   sum_list (map weight (ws[i := w])) + weight (ws ! i) = sum_list (map weight ws) + weight w"
proof (induction ws arbitrary: i)
  case Nil
  then show ?case by simp
next
  case (Cons a ws)
  show ?case
  proof (cases i)
    case 0
    then show ?thesis by simp
  next
    case (Suc j)
    with Cons.prems have "j < length ws" by simp
    from Cons.IH[OF this] Suc show ?thesis by simp
  qed
qed

lemma emitted_append: "emitted d now (xs @ ys) = emitted d now xs @ emitted d now ys"
  by (induction xs) (simp_all split: option.splits)

lemma step_ledger: "step d now cap p q \<Longrightarrow> ledger d now q = ledger d now p"
proof (induction rule: step.induct)
  case (send_job p summary rest)
  then show ?case by (simp add: ledger_def emitted_append split: option.splits)
next
  case (close_jobs p)
  then show ?case by (simp add: ledger_def)
next
  case (worker_receive i p summary rest)
  from held_update[OF worker_receive(1), of "Sending (processStack d now summary)"] worker_receive
  show ?case
    by (cases "processStack d now summary")
       (simp_all add: ledger_def emitted_append ac_simps)
next
  case (worker_send i p result)
  from held_update[OF worker_send(1), of Receiving] worker_send
  show ?case
    by (cases result) (simp_all add: ledger_def ac_simps)
next
  case (worker_exit i p)
  from held_update[OF worker_exit(1), of Exited] worker_exit
  show ?case by (simp add: ledger_def)
next
  case (close_results p)
  then show ?case by (simp add: ledger_def)
next
  case (collect p result rest)
  then show ?case by (cases result) (simp_all add: ledger_def)
next
  case (return p)
  then show ?case by (simp add: ledger_def)
qed

lemma step_potential: "step d now cap p q \<Longrightarrow> potential q < potential p"
proof (induction rule: step.induct)
  case (worker_receive i p summary rest)
  from weight_update[OF worker_receive(1), of "Sending (processStack d now summary)"] worker_receive
  show ?case by (simp add: potential_def)
next
  case (worker_send i p result)
  from weight_update[OF worker_send(1), of Receiving] worker_send
  show ?case by (simp add: potential_def)
next
  case (worker_exit i p)
  from weight_update[OF worker_exit(1), of Exited] worker_exit
  show ?case by (simp add: potential_def)
qed (simp_all add: potential_def)

lemma busy_update:
  "i < length ws \<Longrightarrow>
   sum_list (map busy (ws[i := w])) + busy (ws ! i) = sum_list (map busy ws) + busy w"
proof (induction ws arbitrary: i)
  case Nil
  then show ?case by simp
next
  case (Cons a ws)
  show ?case
  proof (cases i)
    case 0
    then show ?thesis by simp
  next
    case (Suc j)
    with Cons.prems have "j < length ws" by simp
    from Cons.IH[OF this] Suc show ?thesis by simp
  qed
qed

lemma start_inv:
  "pool_inv (length summaries) (nat (numWorkers d summaries)) (start d summaries)"
  by (simp add: pool_inv_def start_def)

lemma worker_not_all_Exited:
  "i < length ws \<Longrightarrow> ws ! i = w \<Longrightarrow> w \<noteq> Exited \<Longrightarrow> \<not> set ws \<subseteq> {Exited}"
  using nth_mem by fastforce

lemma Exited_update:
  "Exited \<in> set (ws[i := w]) \<Longrightarrow> w \<noteq> Exited \<Longrightarrow> Exited \<in> set ws"
  using set_update_subset_insert[of ws i w] by auto

lemma step_inv: "step d now cap p q \<Longrightarrow> pool_inv cap n p \<Longrightarrow> pool_inv cap n q"
proof (induction rule: step.induct)
  case (send_job p summary rest)
  then show ?case by (auto simp: pool_inv_def)
next
  case (close_jobs p)
  then show ?case by (auto simp: pool_inv_def)
next
  case (worker_receive i p summary rest)
  have alive: "\<not> set (workers p) \<subseteq> {Exited}"
    using worker_receive(1,2) by (rule worker_not_all_Exited) simp
  from busy_update[OF worker_receive(1), of "Sending (processStack d now summary)"]
    worker_receive alive
  show ?case
    by (auto simp: pool_inv_def dest: Exited_update)
next
  case (worker_send i p result)
  have alive: "\<not> set (workers p) \<subseteq> {Exited}"
    using worker_send(1,2) by (rule worker_not_all_Exited) simp
  from busy_update[OF worker_send(1), of Receiving] worker_send alive
  show ?case
    by (auto simp: pool_inv_def dest: Exited_update)
next
  case (worker_exit i p)
  have alive: "\<not> set (workers p) \<subseteq> {Exited}"
    using worker_exit(1,2) by (rule worker_not_all_Exited) simp
  from busy_update[OF worker_exit(1), of Exited] worker_exit alive
  show ?case
    by (auto simp: pool_inv_def)
next
  case (close_results p)
  then show ?case by (auto simp: pool_inv_def)
next
  case (collect p result rest)
  then show ?case by (auto simp: pool_inv_def)
next
  case (return p)
  then show ?case by (auto simp: pool_inv_def)
qed

lemma reachable_inv:
  "(step d now cap)\<^sup>*\<^sup>* p q \<Longrightarrow> pool_inv cap n p \<Longrightarrow> pool_inv cap n q"
  by (induction rule: rtranclp_induct) (auto intro: step_inv)

lemma reachable_ledger:
  "(step d now cap)\<^sup>*\<^sup>* p q \<Longrightarrow> ledger d now q = ledger d now p"
  by (induction rule: rtranclp_induct) (auto dest: step_ledger)

lemma held_replicate: "sum_list (replicate n ({#} :: Stack multiset)) = {#}"
  by (induction n) simp_all

lemma start_ledger: "ledger d now (start d summaries) = mset (emitted d now summaries)"
  by (simp add: ledger_def start_def held_replicate)

lemma held_not_Sending: "set ws \<subseteq> {Exited} \<Longrightarrow> sum_list (map held ws) = {#}"
  by (induction ws) auto

lemma busy_pos: "i < length ws \<Longrightarrow> ws ! i = Sending r \<Longrightarrow> 0 < sum_list (map busy ws)"
proof (induction ws arbitrary: i)
  case Nil
  then show ?case by simp
next
  case (Cons a ws)
  then show ?case by (cases i) auto
qed

lemma worker_cases:
  "set ws \<subseteq> {Exited} \<or> (\<exists>i < length ws. ws ! i = Receiving) \<or>
   (\<exists>i r. i < length ws \<and> ws ! i = Sending r)"
proof (induction ws)
  case Nil
  then show ?case by simp
next
  case (Cons a ws)
  show ?case
  proof (cases a)
    case Receiving
    then have "0 < length (a # ws) \<and> (a # ws) ! 0 = Receiving" by simp
    then show ?thesis by blast
  next
    case (Sending r)
    then have "0 < length (a # ws) \<and> (a # ws) ! 0 = Sending r" by simp
    then show ?thesis by blast
  next
    case Exited
    from Cons.IH consider
      (all) "set ws \<subseteq> {Exited}"
      | (recv) i where "i < length ws" "ws ! i = Receiving"
      | (send) i r where "i < length ws" "ws ! i = Sending r"
      by blast
    then show ?thesis
    proof cases
      case all
      with Exited show ?thesis by simp
    next
      case recv
      then have "Suc i < length (a # ws) \<and> (a # ws) ! Suc i = Receiving" by simp
      then show ?thesis by blast
    next
      case send
      then have "Suc i < length (a # ws) \<and> (a # ws) ! Suc i = Sending r" by simp
      then show ?thesis by blast
    qed
  qed
qed

lemma progress:
  assumes inv: "pool_inv cap n p" and nr: "\<not> returned p"
  shows "\<exists>q. step d now cap p q"
proof (cases "unsent p")
  case (Cons summary rest)
  with inv have "length (jobs p) < cap" by (simp add: pool_inv_def)
  with Cons show ?thesis by (blast intro: step.send_job)
next
  case Nil
  show ?thesis
  proof (cases "jobs_closed p")
    case False
    with Nil show ?thesis by (blast intro: step.close_jobs)
  next
    case closed: True
    show ?thesis
    proof (cases "results p")
      case (Cons result rest)
      with closed nr show ?thesis by (blast intro: step.collect)
    next
      case no_results: Nil
      from worker_cases[of "workers p"] consider
        (all) "set (workers p) \<subseteq> {Exited}"
        | (recv) i where "i < length (workers p)" "workers p ! i = Receiving"
        | (send) i r where "i < length (workers p)" "workers p ! i = Sending r"
        by blast
      then show ?thesis
      proof cases
        case all
        show ?thesis
        proof (cases "results_closed p")
          case True
          with closed nr no_results show ?thesis by (blast intro: step.return)
        next
          case False
          with closed all show ?thesis by (blast intro: step.close_results)
        qed
      next
        case recv
        show ?thesis
        proof (cases "jobs p")
          case Nil
          with recv closed show ?thesis by (blast intro: step.worker_exit)
        next
          case (Cons summary rest)
          with recv show ?thesis by (blast intro: step.worker_receive)
        qed
      next
        case send
        from busy_pos[OF send] inv no_results have "length (results p) < cap"
          by (simp add: pool_inv_def)
        with send show ?thesis by (blast intro: step.worker_send)
      qed
    qed
  qed
qed

lemma run_to_return:
  "pool_inv cap n p \<Longrightarrow> \<exists>q. (step d now cap)\<^sup>*\<^sup>* p q \<and> returned q"
proof (induction "potential p" arbitrary: p rule: less_induct)
  case less
  show ?case
  proof (cases "returned p")
    case True
    then show ?thesis by blast
  next
    case False
    from progress[OF less.prems False] obtain p' where st: "step d now cap p p'" by blast
    from step_potential[OF st] step_inv[OF st less.prems] less.hyps
    obtain q where "(step d now cap)\<^sup>*\<^sup>* p' q" "returned q" by blast
    with st show ?thesis by (blast intro: converse_rtranclp_into_rtranclp)
  qed
qed

lemma step_wf: "wfP (\<lambda>q p. step d now cap p q)"
proof -
  have "{(q, p). step d now cap p q} \<subseteq> measure potential"
    by (auto dest: step_potential)
  then have "wf {(q, p). step d now cap p q}"
    by (rule wf_subset[OF wf_measure])
  then show ?thesis by (simp add: wfp_def)
qed

lemma returned_collected:
  assumes run: "(step d now (length summaries))\<^sup>*\<^sup>* (start d summaries) p"
    and ret: "returned p"
  shows "mset (serverlessStacks p) + mset (emitted d now (jobs p)) =
           mset (emitted d now summaries)"
    and "0 < maxWorkers d \<Longrightarrow> serverlessStacks p = [] \<or> jobs p = []"
    and "0 < maxWorkers d \<Longrightarrow> jobs p = []"
    and "maxWorkers d \<le> 0 \<Longrightarrow> serverlessStacks p = []"
proof -
  let ?n = "nat (numWorkers d summaries)"
  have inv: "pool_inv (length summaries) ?n p"
    using reachable_inv[OF run start_inv] .
  from inv ret have facts: "results p = []" "set (workers p) \<subseteq> {Exited}" "unsent p = []"
    "length (workers p) = ?n"
    by (auto simp: pool_inv_def)
  from reachable_ledger[OF run] facts
  show led: "mset (serverlessStacks p) + mset (emitted d now (jobs p)) =
           mset (emitted d now summaries)"
    by (simp add: start_ledger[symmetric] ledger_def[of d now p] held_not_Sending ac_simps)
  show j: "jobs p = []" if "0 < maxWorkers d"
  proof (cases "summaries = []")
    case True
    with inv show ?thesis by (simp add: pool_inv_def)
  next
    case False
    with that have "0 < ?n" by (simp add: numWorkers_def)
    with facts have "workers p \<noteq> []" by auto
    with facts(2) have "Exited \<in> set (workers p)" by (cases "workers p") auto
    with inv show ?thesis by (auto simp: pool_inv_def)
  qed
  then show "serverlessStacks p = [] \<or> jobs p = []" if "0 < maxWorkers d"
    using that by simp
  show "serverlessStacks p = []" if "maxWorkers d \<le> 0"
  proof -
    from that have "?n = 0" by (simp add: numWorkers_def)
    with facts have "workers p = []" by simp
    with inv show ?thesis by (simp add: pool_inv_def)
  qed
qed

section \<open>Properties of a scan\<close>

lemma emitted_map_filter: "emitted d now summaries = List.map_filter (processStack d now) summaries"
  by (induction summaries) (simp_all split: option.splits)

lemma processStacksConcurrently_exists:
  "\<exists>stacks. processStacksConcurrently d now summaries (stacks, None)"
proof -
  from run_to_return[where p = "start d summaries" and d = d and now = now, OF start_inv]
  obtain q where "(step d now (length summaries))\<^sup>*\<^sup>* (start d summaries) q" "returned q"
    by blast
  then show ?thesis by (blast intro: processStacksConcurrently.intros)
qed

lemma processStacksConcurrently_result:
  assumes "processStacksConcurrently d now summaries (stacks, err)"
  shows "err = None"
    and "mset stacks \<subseteq># mset (emitted d now summaries)"
    and "0 < maxWorkers d \<Longrightarrow> mset stacks = mset (emitted d now summaries)"
    and "maxWorkers d \<le> 0 \<Longrightarrow> stacks = []"
proof -
  from assms obtain p where run: "(step d now (length summaries))\<^sup>*\<^sup>* (start d summaries) p"
    and ret: "returned p" and out: "stacks = serverlessStacks p" and e: "err = None"
    by (auto elim: processStacksConcurrently.cases)
  show "err = None" by (rule e)
  from returned_collected(1)[OF run ret] out
  show "mset stacks \<subseteq># mset (emitted d now summaries)"
    by (metis mset_subset_eq_add_left)
  show "mset stacks = mset (emitted d now summaries)" if "0 < maxWorkers d"
    using returned_collected(1)[OF run ret] returned_collected(3)[OF run ret that] out by simp
  show "stacks = []" if "maxWorkers d \<le> 0"
    using returned_collected(4)[OF run ret that] out by simp
qed

lemma Detect_listing_failed:
  assumes "ListActiveStacks (client d) = (summaries, Some e)"
  shows "DetectServerlessStacks d now res \<longleftrightarrow> res = ([], Some e)"
  using assms by (auto elim: DetectServerlessStacks.cases intro: DetectServerlessStacks.intros)

lemma Detect_listing_ok:
  assumes "ListActiveStacks (client d) = (summaries, None)"
  shows "DetectServerlessStacks d now res \<longleftrightarrow> processStacksConcurrently d now summaries res"
  using assms by (auto elim: DetectServerlessStacks.cases intro: DetectServerlessStacks.intros)

lemma Detect_exists: "\<exists>res. DetectServerlessStacks d now res"
proof (cases "ListActiveStacks (client d)")
  case (Pair summaries err)
  show ?thesis
  proof (cases err)
    case None
    with Pair processStacksConcurrently_exists[of d now summaries] show ?thesis
      by (auto simp: Detect_listing_ok)
  next
    case (Some e)
    with Pair show ?thesis by (auto simp: Detect_listing_failed)
  qed
qed

lemma emitted_filter:
  "(\<And>s. s \<in> set summaries \<Longrightarrow> \<not> P s \<Longrightarrow> processStack d now s = None) \<Longrightarrow>
   emitted d now (filter P summaries) = emitted d now summaries"
  by (induction summaries) (auto split: option.splits)

lemma length_emitted: "length (emitted d now summaries) \<le> length summaries"
  by (induction summaries) (auto split: option.splits)

lemma set_emitted:
  "set (emitted d now summaries) = {stack. \<exists>s \<in> set summaries. processStack d now s = Some stack}"
  by (induction summaries) (auto split: option.splits)

lemma convertToModel_fields:
  "Reasons (convertToModel d now summary details reasons) = reasons"
  "Region (convertToModel d now summary details reasons) = region d"
  "StackName (convertToModel d now summary details reasons) =
     (case SummaryStackName summary of Some n \<Rightarrow> n | None \<Rightarrow> [])"
  "StackID (convertToModel d now summary details reasons) =
     (case SummaryStackId summary of Some i \<Rightarrow> i | None \<Rightarrow> [])"
  "Description (convertToModel d now summary details reasons) =
     (case details of None \<Rightarrow> []
      | Some dt \<Rightarrow> (case DetailsDescription dt of Some t \<Rightarrow> t | None \<Rightarrow> []))"
  "StackTags (convertToModel d now summary details reasons) =
     Some (case details of None \<Rightarrow> fmempty | Some dt \<Rightarrow> convertTags (DetailsTags dt) fmempty)"
  by (simp_all add: convertToModel_def Let_def split: option.splits)

lemma convertToModel_times:
  "CreatedAt (convertToModel d now summary details reasons) =
     (let t = (case (case details of Some dt \<Rightarrow> DetailsCreationTime dt
                     | None \<Rightarrow> SummaryCreationTime summary) of Some t \<Rightarrow> t | None \<Rightarrow> 0)
      in if IsZero t then now else t)"
  "UpdatedAt (convertToModel d now summary details reasons) =
     (let u = (case (case details of Some dt \<Rightarrow> DetailsLastUpdatedTime dt
                     | None \<Rightarrow> SummaryLastUpdatedTime summary) of Some t \<Rightarrow> t | None \<Rightarrow> 0)
      in if IsZero u then CreatedAt (convertToModel d now summary details reasons) else u)"
  by (simp_all add: convertToModel_def Let_def split: option.splits)

lemma processStack_unfold:
  "processStack d now s =
     (case SummaryStackName s of
        None \<Rightarrow> None
      | Some n \<Rightarrow>
          if snd (GetStackResources (client d) n) \<noteq> None then None
          else
            (let details = (if snd (GetStackDetails (client d) n) \<noteq> None then None
                            else fst (GetStackDetails (client d) n));
                 verdict = Evaluate (ruleEngine d) (fst (GetStackResources (client d) n)) details
             in if fst verdict then Some (convertToModel d now s details (snd verdict))
                else None))"
  by (simp add: processStack_def Let_def split: option.splits prod.splits)

lemma processStack_Some:
  assumes "processStack d now s = Some stack"
  shows "\<exists>details reasons. stack = convertToModel d now s details reasons \<and> reasons \<noteq> []"
proof -
  from assms obtain n where n: "SummaryStackName s = Some n"
    by (cases "SummaryStackName s") (auto simp: processStack_unfold)
  let ?details = "if snd (GetStackDetails (client d) n) \<noteq> None then None
                  else fst (GetStackDetails (client d) n)"
  let ?verdict = "Evaluate (ruleEngine d) (fst (GetStackResources (client d) n)) ?details"
  from assms n have "fst ?verdict" and "stack = convertToModel d now s ?details (snd ?verdict)"
    by (auto simp: processStack_unfold Let_def split: if_splits)
  moreover from \<open>fst ?verdict\<close> have "snd ?verdict \<noteq> []"
    by (simp add: Evaluate_match_iff)
  ultimately show ?thesis by blast
qed

lemma Detect_stack_origin:
  assumes "DetectServerlessStacks d now (stacks, err)" and "stack \<in> set stacks"
  shows "\<exists>s details reasons. stack = convertToModel d now s details reasons \<and> reasons \<noteq> []"
proof -
  obtain summaries e where l: "ListActiveStacks (client d) = (summaries, e)"
    by (cases "ListActiveStacks (client d)")
  show ?thesis
  proof (cases e)
    case None
    with l assms(1) have "processStacksConcurrently d now summaries (stacks, err)"
      by (simp add: Detect_listing_ok)
    from processStacksConcurrently_result(2)[OF this] assms(2)
    have "stack \<in> set (emitted d now summaries)"
      by (metis mset_subset_eqD set_mset_mset)
    then obtain s where "processStack d now s = Some stack" by (auto simp: set_emitted)
    from processStack_Some[OF this] show ?thesis by blast
  next
    case (Some x)
    with l assms show ?thesis by (simp add: Detect_listing_failed)
  qed
qed

lemma Detect_at_most_one:
  assumes l: "ListActiveStacks (client d) = (summaries, None)" and w: "0 < maxWorkers d"
    and out: "emitted d now summaries = out" and short: "length out \<le> 1"
  shows "DetectServerlessStacks d now (out, None)"
proof -
  from processStacksConcurrently_exists[of d now summaries]
  obtain stacks where psc: "processStacksConcurrently d now summaries (stacks, None)" by blast
  from processStacksConcurrently_result(3)[OF psc w] out have m: "mset stacks = mset out" by simp
  have "stacks = out"
  proof (cases out)
    case Nil
    with m show ?thesis by simp
  next
    case (Cons x xs)
    with short have "out = [x]" by simp
    with m show ?thesis by (metis mset.simps(2) mset_single_iff_right)
  qed
  with psc l show ?thesis by (simp add: Detect_listing_ok)
qed

lemma processStack_details_error:
  "processStack (NewDetector details_error_client ''us-east-1'') 42 (summary_of ''test-stack'') =
     Some (reported ''test-stack'' 42)"
  by (simp add: processStack_def NewDetector_def details_error_client_def summary_of_def
      Evaluate_default bucket_def convertToModel_def IsZero_def reported_def)

lemma emitted_selective:
  "emitted (NewDetector selective_error_client ''us-east-1'') 42
     [summary_of ''good-stack'', summary_of ''failing-stack''] = [reported ''good-stack'' 42]"
  by (simp add: processStack_def NewDetector_def selective_error_client_def summary_of_def
      Evaluate_default bucket_def convertToModel_def IsZero_def reported_def)

lemma processStack_skipped:
  "SummaryStackName s = None \<or>
   (\<exists>n. SummaryStackName s = Some n \<and> snd (GetStackResources (client d) n) \<noteq> None) \<Longrightarrow>
   processStack d now s = None"
  by (auto simp: processStack_def split: option.splits prod.splits)

text \<open>
  C3. \<^verbatim>\<open>DetectServerlessStacks\<close> always returns, and the error it returns
  is the error of \<^verbatim>\<open>ListActiveStacks\<close> itself, unchanged: it is non-nil exactly when
  the listing fails, it is then the listing error with nothing wrapped around it and
  the slice is nil, and no failure of a resource or detail fetch and no absent name
  makes it non-nil.
\<close>

theorem detect_error_is_listing_error:
  "(\<exists>res. DetectServerlessStacks d now res) \<and>
   (\<forall>stacks err. DetectServerlessStacks d now (stacks, err) \<longrightarrow>
      err = snd (ListActiveStacks (client d)) \<and> (err \<noteq> None \<longrightarrow> stacks = []))"
proof (intro conjI allI impI)
  show "\<exists>res. DetectServerlessStacks d now res" by (rule Detect_exists)
next
  fix stacks err
  assume run: "DetectServerlessStacks d now (stacks, err)"
  obtain summaries e where l: "ListActiveStacks (client d) = (summaries, e)"
    by (cases "ListActiveStacks (client d)")
  show "err = snd (ListActiveStacks (client d))"
  proof (cases e)
    case None
    with l run processStacksConcurrently_result(1)[of d now summaries stacks err]
    show ?thesis by (simp add: Detect_listing_ok)
  next
    case (Some x)
    with l run show ?thesis by (simp add: Detect_listing_failed)
  qed
  show "stacks = []" if "err \<noteq> None"
  proof (cases e)
    case None
    with l run processStacksConcurrently_result(1)[of d now summaries stacks err] that
    show ?thesis by (simp add: Detect_listing_ok)
  next
    case (Some x)
    with l run show ?thesis by (simp add: Detect_listing_failed)
  qed
qed

theorem detect_error_is_listing_error_witness:
  "DetectServerlessStacks (NewDetector listing_error_client ''us-east-1'') 42
     ([], Some (New ''access denied to list stacks'')) \<and>
   snd (ListActiveStacks (client (NewDetector listing_error_client ''us-east-1''))) =
     Some (New ''access denied to list stacks'') \<and>
   DetectServerlessStacks (NewDetector selective_error_client ''us-east-1'') 42
     ([reported ''good-stack'' 42], None) \<and>
   snd (ListActiveStacks (client (NewDetector selective_error_client ''us-east-1''))) = None"
proof -
  let ?d = "NewDetector listing_error_client ''us-east-1''"
  let ?s = "NewDetector selective_error_client ''us-east-1''"
  have fail: "DetectServerlessStacks ?d 42 ([], Some (New ''access denied to list stacks''))"
    by (rule DetectServerlessStacks.listing_failed[of _ "[]"])
       (simp add: NewDetector_def listing_error_client_def)
  have l: "ListActiveStacks (client ?s) =
      ([summary_of ''good-stack'', summary_of ''failing-stack''], None)"
    by (simp add: NewDetector_def selective_error_client_def)
  have ok: "DetectServerlessStacks ?s 42 ([reported ''good-stack'' 42], None)"
    by (rule Detect_at_most_one[OF l _ emitted_selective]) (simp_all add: NewDetector_def)
  have "Some (New ''access denied to list stacks'') = snd (ListActiveStacks (client ?d))"
    using detect_error_is_listing_error[of ?d 42, THEN conjunct2, THEN spec, THEN spec,
        THEN mp, OF fail] by (rule conjunct1)
  moreover have "None = snd (ListActiveStacks (client ?s))"
    using detect_error_is_listing_error[of ?s 42, THEN conjunct2, THEN spec, THEN spec,
        THEN mp, OF ok] by (rule conjunct1)
  ultimately show ?thesis using fail ok by simp
qed

theorem detect_error_not_wrapped_counterexample:
  "ListActiveStacks (client (NewDetector listing_error_client ''us-east-1'')) =
     ([], Some (New ''access denied to list stacks'')) \<and>
   DetectServerlessStacks (NewDetector listing_error_client ''us-east-1'') 42
     ([], Some (New ''access denied to list stacks'')) \<and>
   Unwrap (New ''access denied to list stacks'') = None \<and>
   \<not> DetectServerlessStacks (NewDetector listing_error_client ''us-east-1'') 42
     ([], Some (Errorf ''failed to list stacks'' (New ''access denied to list stacks'')))"
proof -
  let ?d = "NewDetector listing_error_client ''us-east-1''"
  have l: "ListActiveStacks (client ?d) = ([], Some (New ''access denied to list stacks''))"
    by (simp add: NewDetector_def listing_error_client_def)
  from Detect_listing_failed[OF l] l show ?thesis by simp
qed

text \<open>
  C4. When the listing succeeds, a scan returns no error. A stack whose name is absent
  or whose resource fetch fails yields the nil result, so what the scan returns is
  drawn from the results of the other stacks only (all of them when the pool has at
  least one worker); when the stack at one position fails its resource fetch, the
  output is drawn from the results of the remaining \<open>N - 1\<close> stacks.
\<close>

theorem per_stack_failure_isolation:
  assumes list: "ListActiveStacks (client d) = (summaries, None)"
    and run: "DetectServerlessStacks d now (stacks, err)"
  shows "err = None \<and>
    (\<forall>s. SummaryStackName s = None \<or>
          (\<exists>n. SummaryStackName s = Some n \<and> snd (GetStackResources (client d) n) \<noteq> None)
          \<longrightarrow> processStack d now s = None) \<and>
    mset stacks \<subseteq>#
      mset (List.map_filter (processStack d now)
             (filter (\<lambda>s. \<exists>n. SummaryStackName s = Some n \<and>
                               snd (GetStackResources (client d) n) = None) summaries)) \<and>
    (0 < maxWorkers d \<longrightarrow>
       mset stacks =
       mset (List.map_filter (processStack d now)
              (filter (\<lambda>s. \<exists>n. SummaryStackName s = Some n \<and>
                                snd (GetStackResources (client d) n) = None) summaries))) \<and>
    (\<forall>i < length summaries.
       (\<exists>n. SummaryStackName (summaries ! i) = Some n \<and>
            snd (GetStackResources (client d) n) \<noteq> None) \<longrightarrow>
       mset stacks \<subseteq>#
         mset (List.map_filter (processStack d now) (take i summaries @ drop (Suc i) summaries))
       \<and> length stacks \<le> length summaries - 1)"
proof -
  let ?ok = "\<lambda>s. \<exists>n. SummaryStackName s = Some n \<and> snd (GetStackResources (client d) n) = None"
  from list run have psc: "processStacksConcurrently d now summaries (stacks, err)"
    by (simp add: Detect_listing_ok)
  note res = processStacksConcurrently_result[OF psc]
  have skip: "processStack d now s = None" if "\<not> ?ok s" for s
    using that by (intro processStack_skipped) (cases "SummaryStackName s"; auto)
  have filt: "emitted d now (filter ?ok summaries) = emitted d now summaries"
    by (rule emitted_filter) (rule skip)
  have one: "mset stacks \<subseteq>#
         mset (List.map_filter (processStack d now) (take i summaries @ drop (Suc i) summaries))
       \<and> length stacks \<le> length summaries - 1"
    if i: "i < length summaries"
      and f: "\<exists>n. SummaryStackName (summaries ! i) = Some n \<and>
            snd (GetStackResources (client d) n) \<noteq> None" for i
  proof -
    from f have none: "processStack d now (summaries ! i) = None"
      by (intro processStack_skipped) blast
    from i have split: "summaries = take i summaries @ summaries ! i # drop (Suc i) summaries"
      by (simp add: id_take_nth_drop)
    have "emitted d now summaries =
        emitted d now (take i summaries @ summaries ! i # drop (Suc i) summaries)"
      using split by simp
    also have "\<dots> = emitted d now (take i summaries @ drop (Suc i) summaries)"
      by (simp add: emitted_append none)
    finally have eq: "emitted d now summaries =
        emitted d now (take i summaries @ drop (Suc i) summaries)" .
    have "length stacks \<le> length (emitted d now summaries)"
      using res(2) by (metis size_mset size_mset_mono)
    also have "\<dots> \<le> length (take i summaries @ drop (Suc i) summaries)"
      unfolding eq by (rule length_emitted)
    also have "\<dots> = length summaries - 1" using i by simp
    finally have "length stacks \<le> length summaries - 1" .
    with res(2) eq show ?thesis by (simp add: emitted_map_filter)
  qed
  from res filt skip one show ?thesis
    by (simp add: emitted_map_filter[symmetric] processStack_skipped)
qed

theorem per_stack_failure_isolation_witness:
  "ListActiveStacks (client (NewDetector selective_error_client ''us-east-1'')) =
     ([summary_of ''good-stack'', summary_of ''failing-stack''], None) \<and>
   DetectServerlessStacks (NewDetector selective_error_client ''us-east-1'') 42
     ([reported ''good-stack'' 42], None) \<and>
   processStack (NewDetector selective_error_client ''us-east-1'') 42
     (summary_of ''failing-stack'') = None \<and>
   length [reported ''good-stack'' 42] \<le>
     length [summary_of ''good-stack'', summary_of ''failing-stack''] - 1"
proof -
  let ?s = "NewDetector selective_error_client ''us-east-1''"
  have l: "ListActiveStacks (client ?s) =
      ([summary_of ''good-stack'', summary_of ''failing-stack''], None)"
    by (simp add: NewDetector_def selective_error_client_def)
  have ok: "DetectServerlessStacks ?s 42 ([reported ''good-stack'' 42], None)"
    by (rule Detect_at_most_one[OF l _ emitted_selective]) (simp_all add: NewDetector_def)
  have f: "SummaryStackName (summary_of ''failing-stack'') = Some ''failing-stack'' \<and>
      snd (GetStackResources (client ?s) ''failing-stack'') \<noteq> None"
    by (simp add: NewDetector_def selective_error_client_def summary_of_def)
  from per_stack_failure_isolation[OF l ok] f
  have "processStack ?s 42 (summary_of ''failing-stack'') = None" by blast
  with l ok show ?thesis by simp
qed

text \<open>
  C5. A stack with a name and fetched resources, whose detail fetch fails or gives no
  detail, and whose resources match with no detail: \<^verbatim>\<open>processStack\<close> reports it, with
  an empty description, an empty (non-nil) tag map and the reasons of the matching
  rules, which are not empty. A scan of this one stack returns exactly this one result.
\<close>

theorem detail_failure_still_reported:
  assumes name: "SummaryStackName summary = Some stackName"
    and res: "GetStackResources (client d) stackName = (resources, None)"
    and det: "snd (GetStackDetails (client d) stackName) \<noteq> None \<or>
              fst (GetStackDetails (client d) stackName) = None"
    and match: "Evaluate (ruleEngine d) resources None = (True, reasons)"
  shows "\<exists>stack. processStack d now summary = Some stack \<and>
           StackName stack = stackName \<and> Region stack = region d \<and>
           Description stack = [] \<and> StackTags stack = Some fmempty \<and>
           Reasons stack = reasons \<and> reasons \<noteq> [] \<and>
           (ListActiveStacks (client d) = ([summary], None) \<and> 0 < maxWorkers d \<longrightarrow>
              (\<forall>stacks err. DetectServerlessStacks d now (stacks, err) \<longrightarrow>
                 stacks = [stack] \<and> err = None))"
proof -
  let ?stack = "convertToModel d now summary None reasons"
  from det have nodet: "(if snd (GetStackDetails (client d) stackName) \<noteq> None then None
       else fst (GetStackDetails (client d) stackName)) = None" by auto
  have ps: "processStack d now summary = Some ?stack"
    using name res match nodet
    by (simp add: processStack_def Let_def split_beta)
  from match have ne: "reasons \<noteq> []"
    by (auto simp: Evaluate_eq filter_empty_conv)
  have scan: "stacks = [?stack] \<and> err = None"
    if l: "ListActiveStacks (client d) = ([summary], None)" and w: "0 < maxWorkers d"
      and run: "DetectServerlessStacks d now (stacks, err)" for stacks err
  proof -
    from l run have psc: "processStacksConcurrently d now [summary] (stacks, err)"
      by (simp add: Detect_listing_ok)
    from processStacksConcurrently_result(3)[OF psc w] ps
    have "mset stacks = {#?stack#}" by simp
    then have "stacks = [?stack]" by (metis mset_single_iff_right)
    with processStacksConcurrently_result(1)[OF psc] show ?thesis by simp
  qed
  from ps ne name scan show ?thesis
    by (intro exI[of _ ?stack]) (simp add: convertToModel_fields)
qed

theorem detail_failure_still_reported_witness:
  "SummaryStackName (summary_of ''test-stack'') = Some ''test-stack'' \<and>
   GetStackResources (client (NewDetector details_error_client ''us-east-1'')) ''test-stack'' =
     ([bucket], None) \<and>
   snd (GetStackDetails (client (NewDetector details_error_client ''us-east-1''))
     ''test-stack'') \<noteq> None \<and>
   Evaluate (ruleEngine (NewDetector details_error_client ''us-east-1'')) [bucket] None =
     (True, [''Contains resource with logical ID 'ServerlessDeploymentBucket'' @ [CHR 0x27]]) \<and>
   processStack (NewDetector details_error_client ''us-east-1'') 42 (summary_of ''test-stack'') =
     Some (reported ''test-stack'' 42) \<and>
   Description (reported ''test-stack'' 42) = [] \<and>
   StackTags (reported ''test-stack'' 42) = Some fmempty"
proof -
  let ?d = "NewDetector details_error_client ''us-east-1''"
  have n: "SummaryStackName (summary_of ''test-stack'') = Some ''test-stack''"
    by (simp add: summary_of_def)
  have r: "GetStackResources (client ?d) ''test-stack'' = ([bucket], None)"
    by (simp add: NewDetector_def details_error_client_def)
  have e: "snd (GetStackDetails (client ?d) ''test-stack'') \<noteq> None \<or>
      fst (GetStackDetails (client ?d) ''test-stack'') = None"
    by (simp add: NewDetector_def details_error_client_def)
  have m: "Evaluate (ruleEngine ?d) [bucket] None =
      (True, [''Contains resource with logical ID 'ServerlessDeploymentBucket'' @ [CHR 0x27]])"
    by (simp add: NewDetector_def Evaluate_default bucket_def)
  from detail_failure_still_reported[OF n r e m, of 42]
  obtain stack where "processStack ?d 42 (summary_of ''test-stack'') = Some stack"
    "Description stack = []" "StackTags stack = Some fmempty" by blast
  with n r m processStack_details_error show ?thesis
    by (simp add: NewDetector_def details_error_client_def)
qed

text \<open>
  C6. With a clock that does not read the zero time, neither timestamp of a converted
  stack is zero: without a creation time in the details (or, when there are no
  details, in the summary) the creation time is the current time, and without an
  update time there the update time is the creation time. This holds of every stack a
  scan returns.
\<close>

theorem timestamps_never_zero:
  assumes now: "\<not> IsZero now"
  shows "\<not> IsZero (CreatedAt (convertToModel d now summary details reasons)) \<and>
    \<not> IsZero (UpdatedAt (convertToModel d now summary details reasons)) \<and>
    ((case details of Some dt \<Rightarrow> DetailsCreationTime dt | None \<Rightarrow> SummaryCreationTime summary)
       = None \<longrightarrow>
     CreatedAt (convertToModel d now summary details reasons) = now) \<and>
    ((case details of Some dt \<Rightarrow> DetailsLastUpdatedTime dt
      | None \<Rightarrow> SummaryLastUpdatedTime summary) = None \<longrightarrow>
     UpdatedAt (convertToModel d now summary details reasons) =
     CreatedAt (convertToModel d now summary details reasons)) \<and>
    (\<forall>stacks err stack. DetectServerlessStacks d now (stacks, err) \<and> stack \<in> set stacks \<longrightarrow>
       \<not> IsZero (CreatedAt stack) \<and> \<not> IsZero (UpdatedAt stack))"
proof -
  have c: "\<not> IsZero (CreatedAt (convertToModel d now s dt rs))" for s dt rs
    using now by (simp add: convertToModel_times Let_def)
  have u: "\<not> IsZero (UpdatedAt (convertToModel d now s dt rs))" for s dt rs
    using c[of s dt rs] by (simp add: convertToModel_times(2) Let_def)
  have "\<not> IsZero (CreatedAt stack) \<and> \<not> IsZero (UpdatedAt stack)"
    if "DetectServerlessStacks d now (stacks, err)" "stack \<in> set stacks" for stacks err stack
    using Detect_stack_origin[OF that] c u by blast
  moreover have "CreatedAt (convertToModel d now summary details reasons) = now"
    if "(case details of Some dt \<Rightarrow> DetailsCreationTime dt | None \<Rightarrow> SummaryCreationTime summary)
       = None"
    using that by (simp add: convertToModel_times Let_def IsZero_def)
  moreover have "UpdatedAt (convertToModel d now summary details reasons) =
     CreatedAt (convertToModel d now summary details reasons)"
    if "(case details of Some dt \<Rightarrow> DetailsLastUpdatedTime dt
      | None \<Rightarrow> SummaryLastUpdatedTime summary) = None"
    using that by (simp add: convertToModel_times(2) Let_def IsZero_def)
  ultimately show ?thesis using c u by blast
qed

theorem timestamps_never_zero_witness:
  "\<not> IsZero 42 \<and>
   CreatedAt (convertToModel (NewDetector details_error_client ''us-east-1'') 42
     (summary_of ''test-stack'') None []) = 42 \<and>
   UpdatedAt (convertToModel (NewDetector details_error_client ''us-east-1'') 42
     (summary_of ''test-stack'') None []) = 42 \<and>
   \<not> IsZero (CreatedAt (convertToModel (NewDetector details_error_client ''us-east-1'') 42
     (summary_of ''test-stack'')
     (Some \<lparr>DetailsDescription = None, DetailsCreationTime = Some 0,
            DetailsLastUpdatedTime = Some 7, DetailsTags = []\<rparr>) []))"
proof -
  have now: "\<not> IsZero 42" by (simp add: IsZero_def)
  from timestamps_never_zero[OF now, of "NewDetector details_error_client ''us-east-1''"
      "summary_of ''test-stack''" None "[]"]
    timestamps_never_zero[OF now, of "NewDetector details_error_client ''us-east-1''"
      "summary_of ''test-stack''"
      "Some \<lparr>DetailsDescription = None, DetailsCreationTime = Some 0,
            DetailsLastUpdatedTime = Some 7, DetailsTags = []\<rparr>" "[]"]
    now
  show ?thesis by (simp add: summary_of_def)
qed

text \<open>
  C7. The worker count is the minimum of \<^verbatim>\<open>maxWorkers\<close> (10 from \<^verbatim>\<open>NewDetector\<close>) and the
  number of candidates, and that many workers are started. An empty candidate list
  gives the empty output and no error, and nothing else. No reachable state of the
  pool is stuck before the main goroutine returns, no run is infinite, and a result
  always exists.
\<close>

theorem worker_count_and_empty_scan:
  "numWorkers d summaries = min (maxWorkers d) (int (length summaries)) \<and>
   maxWorkers (NewDetector c r) = 10 \<and>
   length (workers (start d summaries)) = nat (min (maxWorkers d) (int (length summaries))) \<and>
   (ListActiveStacks (client d) = ([], None) \<longrightarrow>
      DetectServerlessStacks d now ([], None) \<and>
      (\<forall>res. DetectServerlessStacks d now res \<longrightarrow> res = ([], None))) \<and>
   (\<forall>p. (step d now (length summaries))\<^sup>*\<^sup>* (start d summaries) p \<and> \<not> returned p \<longrightarrow>
        (\<exists>q. step d now (length summaries) p q)) \<and>
   wfP (\<lambda>q p. step d now (length summaries) p q) \<and>
   (\<exists>stacks. processStacksConcurrently d now summaries (stacks, None))"
proof -
  have n: "numWorkers d summaries = min (maxWorkers d) (int (length summaries))"
    by (simp add: numWorkers_def min_def)
  have empty: "DetectServerlessStacks d now ([], None) \<and>
      (\<forall>res. DetectServerlessStacks d now res \<longrightarrow> res = ([], None))"
    if l: "ListActiveStacks (client d) = ([], None)"
  proof -
    have only: "res = ([], None)" if "DetectServerlessStacks d now res" for res
    proof -
      from that l have "processStacksConcurrently d now [] (fst res, snd res)"
        by (simp add: Detect_listing_ok)
      from processStacksConcurrently_result(1,2)[OF this] show ?thesis
        by (cases res) simp
    qed
    from processStacksConcurrently_exists[of d now "[]"] l
    obtain stacks where "DetectServerlessStacks d now (stacks, None)"
      by (auto simp: Detect_listing_ok)
    with only[of "(stacks, None)"] only show ?thesis by simp
  qed
  have prog: "\<exists>q. step d now (length summaries) p q"
    if "(step d now (length summaries))\<^sup>*\<^sup>* (start d summaries) p" "\<not> returned p" for p
    using progress[OF reachable_inv[OF that(1) start_inv] that(2)] .
  from n empty prog step_wf[of d now "length summaries"]
    processStacksConcurrently_exists[of d now summaries]
  show ?thesis by (simp add: NewDetector_def start_def)
qed

theorem worker_count_and_empty_scan_witness:
  "ListActiveStacks (client (NewDetector empty_client ''us-east-1'')) = ([], None) \<and>
   DetectServerlessStacks (NewDetector empty_client ''us-east-1'') 42 ([], None) \<and>
   numWorkers (NewDetector empty_client ''us-east-1'') [] = 0 \<and>
   numWorkers (NewDetector empty_client ''us-east-1'')
     [summary_of ''a'', summary_of ''b'', summary_of ''c''] = 3 \<and>
   length (workers (start (NewDetector empty_client ''us-east-1'')
     [summary_of ''a'', summary_of ''b'', summary_of ''c''])) = 3"
proof -
  let ?d = "NewDetector empty_client ''us-east-1''"
  have l: "ListActiveStacks (client ?d) = ([], None)"
    by (simp add: NewDetector_def empty_client_def)
  note w0 = worker_count_and_empty_scan[of ?d "[]" empty_client "''us-east-1''" 42]
  note w3 = worker_count_and_empty_scan[of ?d "[summary_of ''a'', summary_of ''b'', summary_of ''c'']"
      empty_client "''us-east-1''" 42]
  from w0 l have "DetectServerlessStacks ?d 42 ([], None)" by blast
  moreover from w0 have "numWorkers ?d [] = min (maxWorkers ?d) (int (length ([] :: StackSummary list)))"
    by (rule conjunct1)
  moreover from w3 have "numWorkers ?d [summary_of ''a'', summary_of ''b'', summary_of ''c''] =
      min (maxWorkers ?d) (int (length [summary_of ''a'', summary_of ''b'', summary_of ''c'']))"
    by (rule conjunct1)
  moreover from w3 have "length (workers (start ?d [summary_of ''a'', summary_of ''b'', summary_of ''c''])) =
      nat (min (maxWorkers ?d) (int (length [summary_of ''a'', summary_of ''b'', summary_of ''c''])))"
    by blast
  ultimately show ?thesis using l by (simp add: NewDetector_def)
qed

section \<open>Properties of the tag map\<close>

lemma convertTags_keep:
  "\<not> (\<exists>tag \<in> set tags. Key tag = Some k \<and> Value tag \<noteq> None) \<Longrightarrow>
   fmlookup (convertTags tags m) k = fmlookup m k"
  by (induction tags arbitrary: m) auto

lemma convertTags_sound:
  "fmlookup (convertTags tags m) k = Some v \<Longrightarrow>
   fmlookup m k = Some v \<or> (\<exists>tag \<in> set tags. Key tag = Some k \<and> Value tag = Some v)"
proof (induction tags arbitrary: m)
  case Nil
  then show ?case by simp
next
  case (Cons a tags)
  show ?case
  proof (cases "Key a \<noteq> None \<and> Value a \<noteq> None")
    case False
    with Cons.prems have "fmlookup (convertTags tags m) k = Some v"
      by (auto split: if_splits)
    from Cons.IH[OF this] show ?thesis by auto
  next
    case True
    then obtain ka va where a: "Key a = Some ka" "Value a = Some va" by auto
    with Cons.prems have "fmlookup (convertTags tags (fmupd ka va m)) k = Some v" by simp
    from Cons.IH[OF this] a show ?thesis by (auto split: if_splits)
  qed
qed

lemma convertTags_dom_mono: "k \<in> fmdom' m \<Longrightarrow> k \<in> fmdom' (convertTags tags m)"
  by (induction tags arbitrary: m) simp_all

lemma convertTags_dom:
  "tag \<in> set tags \<Longrightarrow> Key tag = Some k \<Longrightarrow> Value tag \<noteq> None \<Longrightarrow>
   k \<in> fmdom' (convertTags tags m)"
proof (induction tags arbitrary: m)
  case Nil
  then show ?case by simp
next
  case (Cons a tags)
  show ?case
  proof (cases "a = tag")
    case True
    with Cons.prems show ?thesis by (simp add: convertTags_dom_mono)
  next
    case False
    with Cons.prems have "tag \<in> set tags" by simp
    from Cons.IH[OF this Cons.prems(2,3)] show ?thesis by simp
  qed
qed

lemma convertTags_distinct:
  "distinct (map Key (filter (\<lambda>tag. Key tag \<noteq> None \<and> Value tag \<noteq> None) tags)) \<Longrightarrow>
   tag \<in> set tags \<Longrightarrow> Key tag = Some k \<Longrightarrow> Value tag = Some v \<Longrightarrow>
   fmlookup (convertTags tags m) k = Some v"
proof (induction tags arbitrary: m)
  case Nil
  then show ?case by simp
next
  case (Cons a tags)
  show ?case
  proof (cases "a = tag")
    case True
    with Cons.prems have "\<not> (\<exists>t \<in> set tags. Key t = Some k \<and> Value t \<noteq> None)"
      by (auto simp: image_iff)
    from convertTags_keep[OF this] True Cons.prems show ?thesis by simp
  next
    case False
    with Cons show ?thesis by (auto split: if_splits)
  qed
qed

text \<open>
  C10. The tag map of a converted stack is never the nil map. Without details it is
  the empty map. With details every entry of the map is a tag of the details with key
  and value present, the key of every such tag is in the map, and when such tags have
  distinct keys the map holds exactly these entries. Every stack a scan returns has a
  non-nil tag map.
\<close>

theorem tags_always_initialized:
  "StackTags (convertToModel d now summary details reasons) \<noteq> None \<and>
   (details = None \<longrightarrow>
      StackTags (convertToModel d now summary details reasons) = Some fmempty) \<and>
   (\<forall>dt. details = Some dt \<longrightarrow>
      (\<exists>m. StackTags (convertToModel d now summary details reasons) = Some m \<and>
         (\<forall>k v. fmlookup m k = Some v \<longrightarrow>
            (\<exists>tag \<in> set (DetailsTags dt). Key tag = Some k \<and> Value tag = Some v)) \<and>
         (\<forall>tag \<in> set (DetailsTags dt). Key tag \<noteq> None \<and> Value tag \<noteq> None \<longrightarrow>
            the (Key tag) \<in> fmdom' m) \<and>
         (distinct (map Key (filter (\<lambda>tag. Key tag \<noteq> None \<and> Value tag \<noteq> None)
                               (DetailsTags dt))) \<longrightarrow>
            (\<forall>k v. fmlookup m k = Some v \<longleftrightarrow>
               (\<exists>tag \<in> set (DetailsTags dt). Key tag = Some k \<and> Value tag = Some v))))) \<and>
   (\<forall>stacks err stack. DetectServerlessStacks d now (stacks, err) \<and> stack \<in> set stacks \<longrightarrow>
      StackTags stack \<noteq> None)"
proof (intro conjI allI impI)
  show "StackTags (convertToModel d now summary details reasons) \<noteq> None"
    by (simp add: convertToModel_fields)
next
  assume "details = None"
  then show "StackTags (convertToModel d now summary details reasons) = Some fmempty"
    by (simp add: convertToModel_fields)
next
  fix dt
  assume dt: "details = Some dt"
  let ?m = "convertTags (DetailsTags dt) fmempty"
  have m: "StackTags (convertToModel d now summary details reasons) = Some ?m"
    using dt by (simp add: convertToModel_fields)
  have a: "\<exists>tag \<in> set (DetailsTags dt). Key tag = Some k \<and> Value tag = Some v"
    if "fmlookup ?m k = Some v" for k v
    using convertTags_sound[OF that] by simp
  have b: "the (Key tag) \<in> fmdom' ?m"
    if "tag \<in> set (DetailsTags dt)" "Key tag \<noteq> None \<and> Value tag \<noteq> None" for tag
  proof -
    from that(2) obtain k where "Key tag = Some k" by auto
    with convertTags_dom[OF that(1) this, of fmempty] that(2) show ?thesis by simp
  qed
  have c: "fmlookup ?m k = Some v"
    if "distinct (map Key (filter (\<lambda>tag. Key tag \<noteq> None \<and> Value tag \<noteq> None)
                               (DetailsTags dt)))"
      "\<exists>tag \<in> set (DetailsTags dt). Key tag = Some k \<and> Value tag = Some v" for k v
    using that convertTags_distinct by blast
  show "\<exists>m. StackTags (convertToModel d now summary details reasons) = Some m \<and>
         (\<forall>k v. fmlookup m k = Some v \<longrightarrow>
            (\<exists>tag \<in> set (DetailsTags dt). Key tag = Some k \<and> Value tag = Some v)) \<and>
         (\<forall>tag \<in> set (DetailsTags dt). Key tag \<noteq> None \<and> Value tag \<noteq> None \<longrightarrow>
            the (Key tag) \<in> fmdom' m) \<and>
         (distinct (map Key (filter (\<lambda>tag. Key tag \<noteq> None \<and> Value tag \<noteq> None)
                               (DetailsTags dt))) \<longrightarrow>
            (\<forall>k v. fmlookup m k = Some v \<longleftrightarrow>
               (\<exists>tag \<in> set (DetailsTags dt). Key tag = Some k \<and> Value tag = Some v)))"
  proof (intro exI[of _ ?m] conjI allI impI ballI iffI)
    show "StackTags (convertToModel d now summary details reasons) = Some ?m" by (rule m)
  next
    fix k v assume "fmlookup ?m k = Some v"
    then show "\<exists>tag \<in> set (DetailsTags dt). Key tag = Some k \<and> Value tag = Some v" by (rule a)
  next
    fix tag assume "tag \<in> set (DetailsTags dt)" "Key tag \<noteq> None \<and> Value tag \<noteq> None"
    then show "the (Key tag) \<in> fmdom' ?m" by (rule b)
  next
    fix k v assume "fmlookup ?m k = Some v"
    then show "\<exists>tag \<in> set (DetailsTags dt). Key tag = Some k \<and> Value tag = Some v" by (rule a)
  next
    fix k v
    assume "distinct (map Key (filter (\<lambda>tag. Key tag \<noteq> None \<and> Value tag \<noteq> None)
                               (DetailsTags dt)))"
      "\<exists>tag \<in> set (DetailsTags dt). Key tag = Some k \<and> Value tag = Some v"
    then show "fmlookup ?m k = Some v" by (rule c)
  qed
next
  fix stacks err stack
  assume "DetectServerlessStacks d now (stacks, err) \<and> stack \<in> set stacks"
  then have "DetectServerlessStacks d now (stacks, err)" "stack \<in> set stacks" by simp_all
  from Detect_stack_origin[OF this] show "StackTags stack \<noteq> None"
    by (auto simp: convertToModel_fields)
qed

theorem tags_always_initialized_witness:
  "distinct (map Key (filter (\<lambda>tag. Key tag \<noteq> None \<and> Value tag \<noteq> None)
     [\<lparr>Key = Some ''Owner'', Value = Some ''team-a''\<rparr>, \<lparr>Key = None, Value = Some ''x''\<rparr>,
      \<lparr>Key = Some ''Env'', Value = None\<rparr>])) \<and>
   StackTags (convertToModel (NewDetector empty_client ''us-east-1'') 42 (summary_of ''my-api-dev'')
     (Some \<lparr>DetailsDescription = Some ''My stack'', DetailsCreationTime = None,
            DetailsLastUpdatedTime = None,
            DetailsTags = [\<lparr>Key = Some ''Owner'', Value = Some ''team-a''\<rparr>,
                           \<lparr>Key = None, Value = Some ''x''\<rparr>,
                           \<lparr>Key = Some ''Env'', Value = None\<rparr>]\<rparr>) []) =
     Some (fmupd ''Owner'' ''team-a'' fmempty) \<and>
   StackTags (convertToModel (NewDetector empty_client ''us-east-1'') 42 (summary_of ''my-api-dev'')
     None []) = Some fmempty \<and>
   fmlookup (the (StackTags (convertToModel (NewDetector empty_client ''us-east-1'') 42
     (summary_of ''my-api-dev'')
     (Some \<lparr>DetailsDescription = Some ''My stack'', DetailsCreationTime = None,
            DetailsLastUpdatedTime = None,
            DetailsTags = [\<lparr>Key = Some ''Owner'', Value = Some ''team-a''\<rparr>,
                           \<lparr>Key = None, Value = Some ''x''\<rparr>,
                           \<lparr>Key = Some ''Env'', Value = None\<rparr>]\<rparr>) []))) ''Owner'' =
     Some ''team-a''"
proof -
  let ?d = "NewDetector empty_client ''us-east-1''"
  let ?dt = "\<lparr>DetailsDescription = Some ''My stack'', DetailsCreationTime = None,
            DetailsLastUpdatedTime = None,
            DetailsTags = [\<lparr>Key = Some ''Owner'', Value = Some ''team-a''\<rparr>,
                           \<lparr>Key = None, Value = Some ''x''\<rparr>,
                           \<lparr>Key = Some ''Env'', Value = None\<rparr>]\<rparr>"
  have none: "StackTags (convertToModel ?d 42 (summary_of ''my-api-dev'') None []) = Some fmempty"
    using tags_always_initialized[of ?d 42 "summary_of ''my-api-dev''" None "[]",
        THEN conjunct2, THEN conjunct1] by simp
  have some: "StackTags (convertToModel ?d 42 (summary_of ''my-api-dev'') (Some ?dt) []) =
      Some (fmupd ''Owner'' ''team-a'' fmempty)"
    by (simp add: convertToModel_fields)
  have d: "distinct (map Key (filter (\<lambda>tag. Key tag \<noteq> None \<and> Value tag \<noteq> None)
     [\<lparr>Key = Some ''Owner'', Value = Some ''team-a''\<rparr>, \<lparr>Key = None, Value = Some ''x''\<rparr>,
      \<lparr>Key = Some ''Env'', Value = None\<rparr>]))"
    by simp
  from tags_always_initialized[of ?d 42 "summary_of ''my-api-dev''" "Some ?dt" "[]",
      THEN conjunct2, THEN conjunct2, THEN conjunct1, THEN spec, THEN mp, OF refl]
  obtain m where m: "StackTags (convertToModel ?d 42 (summary_of ''my-api-dev'') (Some ?dt) []) =
      Some m"
    and ex: "distinct (map Key (filter (\<lambda>tag. Key tag \<noteq> None \<and> Value tag \<noteq> None)
                (DetailsTags ?dt))) \<longrightarrow>
         (\<forall>k v. fmlookup m k = Some v \<longleftrightarrow>
            (\<exists>tag \<in> set (DetailsTags ?dt). Key tag = Some k \<and> Value tag = Some v))"
    by blast
  from d have "distinct (map Key (filter (\<lambda>tag. Key tag \<noteq> None \<and> Value tag \<noteq> None)
                (DetailsTags ?dt)))" by simp
  with ex have "fmlookup m ''Owner'' = Some ''team-a'' \<longleftrightarrow>
      (\<exists>tag \<in> set (DetailsTags ?dt). Key tag = Some ''Owner'' \<and> Value tag = Some ''team-a'')"
    by blast
  then have "fmlookup m ''Owner'' = Some ''team-a''" by simp
  with m have look: "fmlookup (the (StackTags (convertToModel ?d 42 (summary_of ''my-api-dev'')
      (Some ?dt) []))) ''Owner'' = Some ''team-a''" by simp
  from none some d look show ?thesis by (intro conjI)
qed

section \<open>Properties of the TSV output\<close>

lemma ReplaceAll_concat:
  "ReplaceAll s old new = concat (map (\<lambda>c. if c = old then new else [c]) s)"
  by (induction s) auto

lemma escapeValue_concat:
  "escapeValue s =
     concat (map (\<lambda>c. if c = CHR 0x09 then [CHR 0x5C, CHR ''t'']
                       else if c = CHR 0x0A then [CHR 0x5C, CHR ''n'']
                       else if c = CHR 0x0D then [CHR 0x5C, CHR ''r''] else [c]) s)"
  by (induction s) (auto simp: escapeValue_def Let_def ReplaceAll_concat)

lemma escapeValue_clean: "set (escapeValue s) \<inter> {CHR 0x09, CHR 0x0A, CHR 0x0D} = {}"
  unfolding escapeValue_concat by (induction s) auto

lemma Join_Cons: "Join (x # xs) sep = x @ concat (map (\<lambda>y. sep @ y) xs)"
  by (induction xs arbitrary: x) auto

lemma write_rows_eq:
  "write_rows rfc stacks result =
     result @
     concat (map (\<lambda>stack.
        Join [escapeValue (StackName stack), escapeValue (StackID stack),
              escapeValue (Region stack), escapeValue (Description stack),
              formatTime rfc (CreatedAt stack), formatTime rfc (UpdatedAt stack),
              formatTags (StackTags stack), formatReasons (Reasons stack)] [CHR 0x09] @
        [CHR 0x0A]) stacks)"
  by (induction stacks arbitrary: result) simp_all

lemma rows_shift:
  "(h @ [c]) @ concat (map (\<lambda>x. f x @ [c]) xs) =
   (h @ concat (map (\<lambda>y. [c] @ y) (map f xs))) @ [c]"
  by (induction xs rule: rev_induct) simp_all

lemma Format_lines:
  "Format rfc stacks =
     (Join (Join [''StackName'', ''StackID'', ''Region'', ''Description'', ''CreatedAt'',
                  ''UpdatedAt'', ''Tags'', ''Reasons''] [CHR 0x09] #
            map (\<lambda>stack.
              Join [escapeValue (StackName stack), escapeValue (StackID stack),
                    escapeValue (Region stack), escapeValue (Description stack),
                    formatTime rfc (CreatedAt stack), formatTime rfc (UpdatedAt stack),
                    formatTags (StackTags stack), formatReasons (Reasons stack)] [CHR 0x09])
              stacks) [CHR 0x0A], None)"
  unfolding Format_def Let_def write_rows_eq rows_shift Join_Cons
  by (simp add: HasSuffix_def)

lemma formatReasons_eq: "formatReasons reasons = Join (map escapeValue reasons) '';''"
  by (cases reasons) (simp_all add: formatReasons_def)

lemma lookup_present:
  "key |\<in>| fmdom m \<Longrightarrow>
   (case fmlookup m key of Some v \<Rightarrow> v | None \<Rightarrow> []) = the (fmlookup m key)"
  by (auto simp: fmlookup_dom_iff)

lemma formatTags_eq:
  "formatTags (Some m) =
     Join (map (\<lambda>key. escapeValue key @ ''='' @ escapeValue (the (fmlookup m key)))
            (sorted_list_of_fset (fmdom m))) '';''"
proof (cases "fmdom m = {||}")
  case True
  then show ?thesis by (simp add: formatTags_def sorted_list_of_fset.rep_eq)
next
  case False
  have eq: "map (\<lambda>key. escapeValue key @ ''='' @
                 escapeValue (case fmlookup m key of Some v \<Rightarrow> v | None \<Rightarrow> []))
          (sorted_list_of_fset (fmdom m)) =
        map (\<lambda>key. escapeValue key @ ''='' @ escapeValue (the (fmlookup m key)))
          (sorted_list_of_fset (fmdom m))"
  proof (rule map_cong[OF refl])
    fix key assume "key \<in> set (sorted_list_of_fset (fmdom m))"
    then have "key |\<in>| fmdom m" by simp
    from lookup_present[OF this]
    show "escapeValue key @ ''='' @
            escapeValue (case fmlookup m key of Some v \<Rightarrow> v | None \<Rightarrow> []) =
          escapeValue key @ ''='' @ escapeValue (the (fmlookup m key))"
      by (simp only:)
  qed
  from False have "fcard (fmdom m) \<noteq> 0" by simp
  then have "formatTags (Some m) =
      Join (map (\<lambda>key. escapeValue key @ ''='' @
                 escapeValue (case fmlookup m key of Some v \<Rightarrow> v | None \<Rightarrow> []))
          (sorted_list_of_fset (fmdom m))) '';''"
    unfolding formatTags_def Let_def by (simp only: option.case if_False)
  then show ?thesis by (simp only: eq)
qed

lemma sorted_keys:
  "sorted (sorted_list_of_fset S) \<and> distinct (sorted_list_of_fset S) \<and>
   set (sorted_list_of_fset S) = fset S"
  by (simp add: sorted_list_of_fset.rep_eq)

text \<open>
  C9. The TSV output is the lines joined by newlines, with no newline at the end: the
  header line with the eight column names joined by tabs, then for each stack, in list
  order, its eight cells joined by tabs. The reasons cell is the escaped reasons joined
  by \<^verbatim>\<open>;\<close>; the tags cell is, for the keys of the map in ascending order, the escaped
  key, \<^verbatim>\<open>=\<close> and the escaped value, joined by \<^verbatim>\<open>;\<close> (empty for the nil map). Escaping
  replaces each tab, newline and carriage return by a backslash followed by \<^verbatim>\<open>t\<close>,
  \<^verbatim>\<open>n\<close> or \<^verbatim>\<open>r\<close> and leaves every other byte, so that none of the three is left.
\<close>

theorem TSV_rendering:
  "Format rfc3339 stacks =
     (Join (Join [''StackName'', ''StackID'', ''Region'', ''Description'', ''CreatedAt'',
                  ''UpdatedAt'', ''Tags'', ''Reasons''] [CHR 0x09] #
            map (\<lambda>stack.
              Join [escapeValue (StackName stack), escapeValue (StackID stack),
                    escapeValue (Region stack), escapeValue (Description stack),
                    formatTime rfc3339 (CreatedAt stack), formatTime rfc3339 (UpdatedAt stack),
                    formatTags (StackTags stack), formatReasons (Reasons stack)] [CHR 0x09])
              stacks) [CHR 0x0A], None) \<and>
   formatReasons reasons = Join (map escapeValue reasons) '';'' \<and>
   formatTags None = [] \<and>
   formatTags (Some m) =
     Join (map (\<lambda>key. escapeValue key @ ''='' @ escapeValue (the (fmlookup m key)))
            (sorted_list_of_fset (fmdom m))) '';'' \<and>
   sorted (sorted_list_of_fset (fmdom m)) \<and> distinct (sorted_list_of_fset (fmdom m)) \<and>
   set (sorted_list_of_fset (fmdom m)) = fmdom' m \<and>
   escapeValue s =
     concat (map (\<lambda>c. if c = CHR 0x09 then [CHR 0x5C, CHR ''t'']
                       else if c = CHR 0x0A then [CHR 0x5C, CHR ''n'']
                       else if c = CHR 0x0D then [CHR 0x5C, CHR ''r''] else [c]) s) \<and>
   set (escapeValue s) \<inter> {CHR 0x09, CHR 0x0A, CHR 0x0D} = {}"
proof (intro conjI)
  show "formatTags None = []" by (simp add: formatTags_def)
  show "set (sorted_list_of_fset (fmdom m)) = fmdom' m"
    by (simp add: sorted_keys fmdom'_alt_def)
qed (simp_all only: Format_lines formatReasons_eq formatTags_eq sorted_keys escapeValue_clean
    escapeValue_concat[symmetric])

theorem TSV_rendering_witness:
  "Format (\<lambda>t. ''2023-01-15T10:30:00Z'')
     [\<lparr>StackName = ''test-stack'', StackID = ''arn:test-stack'', Region = ''us-east-1'',
       CreatedAt = 42, UpdatedAt = 0,
       Description = ''Description with'' @ [CHR 0x09] @ ''tabs and'' @ [CHR 0x0A] @ ''newlines'',
       StackTags = Some (fmupd ''Service'' ''serverless'' (fmupd ''Environment'' ''test'' fmempty)),
       Reasons = [''Test reason'', ''Other'']\<rparr>] =
   (''StackName'' @ [CHR 0x09] @ ''StackID'' @ [CHR 0x09] @ ''Region'' @ [CHR 0x09] @
    ''Description'' @ [CHR 0x09] @ ''CreatedAt'' @ [CHR 0x09] @ ''UpdatedAt'' @ [CHR 0x09] @
    ''Tags'' @ [CHR 0x09] @ ''Reasons'' @ [CHR 0x0A] @
    ''test-stack'' @ [CHR 0x09] @ ''arn:test-stack'' @ [CHR 0x09] @ ''us-east-1'' @ [CHR 0x09] @
    ''Description with'' @ [CHR 0x5C] @ ''ttabs and'' @ [CHR 0x5C] @ ''nnewlines'' @ [CHR 0x09] @
    ''2023-01-15T10:30:00Z'' @ [CHR 0x09] @ [CHR 0x09] @
    ''Environment=test;Service=serverless'' @ [CHR 0x09] @ ''Test reason;Other'', None)"
  by (rule trans[OF TSV_rendering[THEN conjunct1]]) code_simp

end
